theory Spec2Isabelle
  imports Main
begin

section \<open>The debugger's types and values, as structptrs.py reads them\<close>

text \<open>
  structptrs.py is a gdb command. It asks gdb for the static type of a value
  (\<^verbatim>\<open>val.type\<close>), classifies the type by its code, and reads sub-values with
  \<^verbatim>\<open>val[i]\<close> and \<^verbatim>\<open>val[f]\<close>. The model below holds the answers gdb gives to
  exactly these questions.

  A call the script wraps in \<^verbatim>\<open>try\<close> may fail, and its failure is a value of the
  model: \<^verbatim>\<open>strip_typedefs()\<close>, \<^verbatim>\<open>range()\<close>, the comparison of a \<^verbatim>\<open>sizeof\<close> that is
  \<^verbatim>\<open>None\<close>, \<^verbatim>\<open>val[i]\<close>, \<^verbatim>\<open>val[f]\<close>, \<^verbatim>\<open>int(v)\<close>, \<^verbatim>\<open>gdb.string_to_argv\<close> and
  \<^verbatim>\<open>gdb.parse_and_eval\<close>.

  The script also calls gdb outside every \<^verbatim>\<open>try\<close>: \<^verbatim>\<open>str(v)\<close> in the handler of
  \<^verbatim>\<open>fmt_addr\<close>, \<^verbatim>\<open>str(t)\<close> in the handler of \<^verbatim>\<open>typename\<close>, \<^verbatim>\<open>t.fields()\<close> at the head of
  the struct and union loops, and \<^verbatim>\<open>t.target()\<close> in the unknown-length line. The
  walker \<open>walk_value\<close> is the script on the runs where these calls return. The
  walker \<open>walk_value_x\<close> takes which of them raise as a parameter and carries the
  exception out, as Python does; the two agree on every run that ends without
  an exception.
\<close>

datatype type_code =
    TYPE_CODE_PTR
  | TYPE_CODE_ARRAY
  | TYPE_CODE_STRUCT
  | TYPE_CODE_UNION
  | TYPE_CODE_TYPEDEF
  | TYPE_CODE_OTHER

text \<open>
  A \<^verbatim>\<open>gdb.Type\<close>. Every type has \<^verbatim>\<open>tag\<close> (absent is \<^verbatim>\<open>None\<close>), \<^verbatim>\<open>str(t)\<close> and
  \<^verbatim>\<open>sizeof\<close> (\<^verbatim>\<open>None\<close> for a type without a fixed size). An array type has the
  answer of \<^verbatim>\<open>range()\<close> (\<open>None\<close>: the call raises) and its \<^verbatim>\<open>target()\<close>; a struct
  or union type has its \<^verbatim>\<open>fields()\<close>; a typedef has the type it is an alias
  of (\<open>None\<close>: gdb cannot resolve it, and \<^verbatim>\<open>strip_typedefs()\<close> raises). \<open>OtherType\<close>
  stands for every other code (integers, enums, functions, ...).
\<close>

datatype gdb_type =
    PtrType (tag: "string option") (str: string) (sizeof: "int option")
  | ArrayType (tag: "string option") (str: string) (sizeof: "int option")
      (range_of: "(int \<times> int) option") (target: gdb_type)
  | StructType (tag: "string option") (str: string) (sizeof: "int option")
      (fields_of: "gdb_field list")
  | UnionType (tag: "string option") (str: string) (sizeof: "int option")
      (fields_of: "gdb_field list")
  | TypedefType (tag: "string option") (str: string) (sizeof: "int option")
      (aliased: "gdb_type option")
  | OtherType (tag: "string option") (str: string) (sizeof: "int option")
and gdb_field =
    Field (name: "string option") (artificial: bool) (ftype: gdb_type)

fun code :: "gdb_type \<Rightarrow> type_code" where
  "code (PtrType _ _ _) = TYPE_CODE_PTR"
| "code (ArrayType _ _ _ _ _) = TYPE_CODE_ARRAY"
| "code (StructType _ _ _ _) = TYPE_CODE_STRUCT"
| "code (UnionType _ _ _ _) = TYPE_CODE_UNION"
| "code (TypedefType _ _ _ _) = TYPE_CODE_TYPEDEF"
| "code (OtherType _ _ _) = TYPE_CODE_OTHER"

text \<open>
  \<^verbatim>\<open>t.strip_typedefs()\<close>: gdb removes every layer of typedef; a type that is not
  a typedef is returned as it is. \<open>None\<close> is the call raising.
\<close>

fun strip_typedefs :: "gdb_type \<Rightarrow> gdb_type option" where
  "strip_typedefs (TypedefType _ _ _ None) = None"
| "strip_typedefs (TypedefType _ _ _ (Some u)) = strip_typedefs u"
| "strip_typedefs t = Some t"

text \<open>
  A \<^verbatim>\<open>gdb.Value\<close>: its static type, the answer of \<^verbatim>\<open>int(v)\<close> (\<open>None\<close>: raises),
  \<^verbatim>\<open>str(v)\<close>, and its sub-values. \<^verbatim>\<open>val[i]\<close> reads position \<open>i\<close> of an array value;
  \<^verbatim>\<open>val[f]\<close> reads the position that field \<^verbatim>\<open>f\<close> has in \<^verbatim>\<open>t.fields()\<close>. \<open>None\<close> at a
  position, or no such position, is gdb raising.
\<close>

datatype gdb_value =
  Value (vtype: gdb_type) (as_int: "int option") (as_str: string)
    (subs: "gdb_value option list")

definition getitem :: "gdb_value \<Rightarrow> nat \<Rightarrow> gdb_value option" where
  "getitem val i = (if i < length (subs val) then subs val ! i else None)"

section \<open>The helpers of structptrs.py\<close>

text \<open>\<^verbatim>\<open>strip(t)\<close>: the stripped type, or \<^verbatim>\<open>t\<close> itself when stripping raises.\<close>

definition strip :: "gdb_type \<Rightarrow> gdb_type" where
  "strip t = (case strip_typedefs t of Some u \<Rightarrow> u | None \<Rightarrow> t)"

definition is_ptr :: "gdb_type \<Rightarrow> bool" where
  "is_ptr t = (code (strip t) = TYPE_CODE_PTR)"

definition is_struct :: "gdb_type \<Rightarrow> bool" where
  "is_struct t = (code (strip t) = TYPE_CODE_STRUCT)"

definition is_union :: "gdb_type \<Rightarrow> bool" where
  "is_union t = (code (strip t) = TYPE_CODE_UNION)"

definition is_array :: "gdb_type \<Rightarrow> bool" where
  "is_array t = (code (strip t) = TYPE_CODE_ARRAY)"

text \<open>\<^verbatim>\<open>t.tag or str(t)\<close>: an absent or empty tag falls through to \<^verbatim>\<open>str(t)\<close>.\<close>

definition typename :: "gdb_type \<Rightarrow> string" where
  "typename t0 =
     (let t = strip t0 in
      case tag t of
        Some s \<Rightarrow> if s \<noteq> [] then s else str t
      | None \<Rightarrow> str t)"

text \<open>
  \<^verbatim>\<open>array_len(t)\<close>, called on array types only. First \<^verbatim>\<open>hi - lo + 1\<close> from
  \<^verbatim>\<open>t.range()\<close>; when that raises, \<^verbatim>\<open>t.sizeof // el.sizeof\<close> if both sizes are
  positive. A \<^verbatim>\<open>sizeof\<close> that is \<^verbatim>\<open>None\<close> makes the comparison \<^verbatim>\<open>> 0\<close> raise
  TypeError inside the second \<^verbatim>\<open>try\<close>, so the result is \<^verbatim>\<open>None\<close>; \<^verbatim>\<open>and\<close> tests
  \<^verbatim>\<open>el.sizeof\<close> first and \<^verbatim>\<open>t.sizeof\<close> only when that is positive. The element
  type of an array type is never \<^verbatim>\<open>None\<close>, so the test \<^verbatim>\<open>el is not None\<close> holds.
\<close>

definition array_len :: "gdb_type \<Rightarrow> int option" where
  "array_len t0 =
     (let t = strip t0 in
      case range_of t of
        Some (lo, hi) \<Rightarrow> Some (hi - lo + 1)
      | None \<Rightarrow>
          (let el = target t in
           case sizeof el of
             None \<Rightarrow> None
           | Some es \<Rightarrow>
               if es > 0 then
                 (case sizeof t of
                    None \<Rightarrow> None
                  | Some ts \<Rightarrow> if ts > 0 then Some (ts div es) else None)
               else None))"

subsection \<open>Formatting integers as Python does\<close>

text \<open>
  The digits of a non-negative integer, most significant first. Only
  non-negative arguments are passed.
\<close>

definition hex_digit :: "int \<Rightarrow> char" where
  "hex_digit d = ''0123456789abcdef'' ! nat (d mod 16)"

function hex_digits :: "int \<Rightarrow> string" where
  "hex_digits n =
     (if n < 16 then [hex_digit n] else hex_digits (n div 16) @ [hex_digit (n mod 16)])"
  by pat_completeness auto
termination
  by (relation "measure nat") auto

declare hex_digits.simps [simp del]

text \<open>\<^verbatim>\<open>"{:x}".format(n)\<close>: lowercase digits, a minus sign before a negative number.\<close>

definition format_x :: "int \<Rightarrow> string" where
  "format_x n = (if n < 0 then ''-'' @ hex_digits (- n) else hex_digits n)"

definition dec_digit :: "int \<Rightarrow> char" where
  "dec_digit d = ''0123456789'' ! nat (d mod 10)"

function dec_digits :: "int \<Rightarrow> string" where
  "dec_digits n =
     (if n < 10 then [dec_digit n] else dec_digits (n div 10) @ [dec_digit (n mod 10)])"
  by pat_completeness auto
termination
  by (relation "measure nat") auto

declare dec_digits.simps [simp del]

text \<open>\<^verbatim>\<open>str(n)\<close> of a Python integer, as an f-string inserts it.\<close>

definition str_int :: "int \<Rightarrow> string" where
  "str_int n = (if n < 0 then ''-'' @ dec_digits (- n) else dec_digits n)"

text \<open>\<^verbatim>\<open>fmt_addr(v)\<close>: \<^verbatim>\<open>"0x{:x}".format(int(v))\<close>, or \<^verbatim>\<open>str(v)\<close> when \<^verbatim>\<open>int(v)\<close> raises.\<close>

definition fmt_addr :: "gdb_value \<Rightarrow> string" where
  "fmt_addr v = (case as_int v of Some n \<Rightarrow> ''0x'' @ format_x n | None \<Rightarrow> as_str v)"

text \<open>\<^verbatim>\<open>range(n)\<close> of a Python integer: empty when \<^verbatim>\<open>n\<close> is not positive.\<close>

definition py_range :: "int \<Rightarrow> nat list" where
  "py_range n = [0..<nat n]"

section \<open>The enumerator\<close>

text \<open>
  What \<^verbatim>\<open>gdb.write\<close> receives. Each constructor is one of the script's format
  strings and carries the strings put into it; \<open>render\<close> gives the text written.
  \<open>Report\<close> is the line of \<^verbatim>\<open>_report_pointer\<close>, the Report Record of the
  specification, with its path, the name of the pointer type and the formatted
  address; \<open>Total\<close> is the closing line of \<^verbatim>\<open>run\<close>; the other three are the
  diagnostics, each with the path it is written for (\<open>UnknownLength\<close> also with
  the name of the element type).
\<close>

datatype out_line =
    Report string string string
  | UnknownLength string string
  | InaccessibleElement string
  | Inaccessible string
  | Total int

definition nl :: string where
  "nl = [CHR 0x0A]"

fun render :: "out_line \<Rightarrow> string" where
  "render (Report path tn addr) = path @ '' : '' @ tn @ '' = '' @ addr @ nl"
| "render (UnknownLength path el) =
     path @ '' : <array of '' @ el @ ''> (length unknown; skipped)'' @ nl"
| "render (InaccessibleElement p) = p @ '' : <inaccessible element>'' @ nl"
| "render (Inaccessible full) = full @ '' : <inaccessible>'' @ nl"
| "render (Total n) = nl @ ''Total pointer fields: '' @ str_int n @ nl"

fun is_report :: "out_line \<Rightarrow> bool" where
  "is_report (Report _ _ _) = True"
| "is_report _ = False"

text \<open>
  The state the enumerator works on: its own \<^verbatim>\<open>self.count\<close> and what has been
  written to gdb's console so far.
\<close>

record state =
  count :: int
  console :: "out_line list"

definition gdb_write :: "out_line \<Rightarrow> state \<Rightarrow> state" where
  "gdb_write l st = st\<lparr>console := console st @ [l]\<rparr>"

definition report_pointer :: "gdb_value \<Rightarrow> gdb_type \<Rightarrow> string \<Rightarrow> state \<Rightarrow> state" where
  "report_pointer pval ptype path st =
     (let st1 = gdb_write (Report path (typename ptype) (fmt_addr pval)) st
      in st1\<lparr>count := count st1 + 1\<rparr>)"

definition field_name :: "gdb_field \<Rightarrow> string" where
  "field_name f = (case name f of Some s \<Rightarrow> if s \<noteq> [] then s else ''<anon>'' | None \<Rightarrow> ''<anon>'')"

text \<open>
  \<^verbatim>\<open>_walk_value\<close>. The loop over \<^verbatim>\<open>range(n)\<close> is a fold over the indices, the loops
  over \<^verbatim>\<open>t.fields()\<close> are folds over the fields paired with their positions;
  \<^verbatim>\<open>continue\<close> is the end of one pass through the body. The recursion follows
  the sub-values, so it ends.
\<close>

function walk_value :: "gdb_value \<Rightarrow> string \<Rightarrow> state \<Rightarrow> state" where
  "walk_value val path st =
     (let t = strip (vtype val) in
      if is_ptr t then report_pointer val t path st
      else if is_array t then
        (case array_len t of
           None \<Rightarrow> gdb_write (UnknownLength path (typename (target t))) st
         | Some n \<Rightarrow>
             fold (\<lambda>i st'.
                     case getitem val i of
                       None \<Rightarrow> gdb_write (InaccessibleElement (path @ ''['' @ str_int (int i) @ '']'')) st'
                     | Some elem \<Rightarrow> walk_value elem (path @ ''['' @ str_int (int i) @ '']'') st')
                  (py_range n) st)
      else if is_struct t then
        fold (\<lambda>(i, f) st'.
                if artificial f then st'
                else
                  (let fname = field_name f;
                       ft = strip (ftype f);
                       full = path @ ''.'' @ fname
                   in case getitem val i of
                        None \<Rightarrow> gdb_write (Inaccessible full) st'
                      | Some fval \<Rightarrow>
                          if is_ptr ft then report_pointer fval ft full st'
                          else if is_array ft \<or> is_struct ft \<or> is_union ft
                          then walk_value fval full st'
                          else st'))
             (enumerate 0 (fields_of t)) st
      else if is_union t then
        fold (\<lambda>(i, f) st'.
                (let fname = field_name f;
                     ft = strip (ftype f);
                     full = path @ ''.'' @ fname
                 in case getitem val i of
                      None \<Rightarrow> gdb_write (Inaccessible full) st'
                    | Some fval \<Rightarrow>
                        if is_ptr ft then report_pointer fval ft full st'
                        else if is_array ft \<or> is_struct ft \<or> is_union ft
                        then walk_value fval full st'
                        else st'))
             (enumerate 0 (fields_of t)) st
      else st)"
  by pat_completeness auto
termination
proof -
  have sub: "size elem < size val" if "getitem val i = Some elem" for val i elem
  proof -
    from that have "Some elem \<in> set (subs val)"
      by (auto simp: getitem_def split: if_splits dest: nth_mem)
    then have "size_option size (Some elem) \<le> size_list (size_option size) (subs val)"
      by (simp add: size_list_estimation')
    then show ?thesis by (cases val) simp
  qed
  show ?thesis
    by (relation "measure (\<lambda>(val, path, st). size val)") (auto dest: sub)
qed

declare walk_value.simps [simp del]

text \<open>
  \<^verbatim>\<open>run\<close>: reset the count, walk, write the total. The blank line before the
  total is part of the same \<^verbatim>\<open>gdb.write\<close> call.
\<close>

definition run :: "gdb_value \<Rightarrow> string \<Rightarrow> state \<Rightarrow> state" where
  "run val root_name st =
     (let st1 = st\<lparr>count := 0\<rparr>;
          st2 = walk_value val root_name st1
      in gdb_write (Total (count st2)) st2)"

section \<open>The command\<close>

datatype gdb_error = GdbError string

text \<open>\<^verbatim>\<open>" ".join(argv)\<close>\<close>

fun join_space :: "string list \<Rightarrow> string" where
  "join_space [] = []"
| "join_space [a] = a"
| "join_space (a # b # bs) = a @ '' '' @ join_space (b # bs)"

text \<open>
  \<^verbatim>\<open>StructPtrsCommand.invoke\<close>. \<^verbatim>\<open>gdb.string_to_argv\<close> and \<^verbatim>\<open>gdb.parse_and_eval\<close>
  belong to gdb and are parameters; \<open>Inl e\<close> is the call raising an exception
  whose text is \<open>e\<close>. The result is the exception raised to gdb, if any, and
  the console afterwards.
\<close>

definition invoke ::
  "(string \<Rightarrow> string + string list) \<Rightarrow> (string \<Rightarrow> string + gdb_value) \<Rightarrow>
   string \<Rightarrow> bool \<Rightarrow> out_line list \<Rightarrow> gdb_error option \<times> out_line list" where
  "invoke string_to_argv parse_and_eval arg from_tty con =
     (case string_to_argv arg of
        Inl e \<Rightarrow> (Some (GdbError e), con)
      | Inr argv \<Rightarrow>
          if argv = [] then (Some (GdbError ''usage: structptrs EXPR''), con)
          else
            (let expr = join_space argv in
             case parse_and_eval expr of
               Inl e \<Rightarrow> (Some (GdbError (''failed to evaluate EXPR: '' @ e)), con)
             | Inr val \<Rightarrow>
                 (let enum = \<lparr>count = 0, console = con\<rparr>
                  in (None, console (run val expr enum)))))"

section \<open>The walk when a call outside every \<^verbatim>\<open>try\<close> raises\<close>

text \<open>
  The exception that leaves the walk, named after the call that raised it, and
  the calls that raise: \<^verbatim>\<open>str(v)\<close> of a value, \<^verbatim>\<open>str(t)\<close>, \<^verbatim>\<open>t.target()\<close> and
  \<^verbatim>\<open>t.fields()\<close> of a type.
\<close>

datatype uncaught =
    StrOfValueRaised
  | StrOfTypeRaised
  | TargetRaised
  | FieldsRaised

record faults =
  str_value_raises :: "gdb_value \<Rightarrow> bool"
  str_type_raises :: "gdb_type \<Rightarrow> bool"
  target_raises :: "gdb_type \<Rightarrow> bool"
  fields_raises :: "gdb_type \<Rightarrow> bool"

definition no_faults :: faults where
  "no_faults =
     \<lparr>str_value_raises = (\<lambda>v. False), str_type_raises = (\<lambda>t. False),
      target_raises = (\<lambda>t. False), fields_raises = (\<lambda>t. False)\<rparr>"

text \<open>
  \<^verbatim>\<open>typename\<close>: \<^verbatim>\<open>str(t)\<close> is called only when the tag is absent or empty; when it
  raises inside the \<^verbatim>\<open>try\<close>, the handler calls it again and it raises again.
\<close>

definition typename_x :: "faults \<Rightarrow> gdb_type \<Rightarrow> uncaught + string" where
  "typename_x F t0 =
     (let t = strip t0;
          s = (if str_type_raises F t then Inl StrOfTypeRaised else Inr (str t))
      in case tag t of
           Some g \<Rightarrow> if g \<noteq> [] then Inr g else s
         | None \<Rightarrow> s)"

text \<open>
  \<^verbatim>\<open>array_len\<close>: \<^verbatim>\<open>t.target()\<close> is called only when \<^verbatim>\<open>range()\<close> raised, inside the
  second \<^verbatim>\<open>try\<close>; when it raises the result is \<^verbatim>\<open>None\<close>.
\<close>

definition array_len_x :: "faults \<Rightarrow> gdb_type \<Rightarrow> int option" where
  "array_len_x F t0 =
     (let t = strip t0 in
      case range_of t of
        Some (lo, hi) \<Rightarrow> Some (hi - lo + 1)
      | None \<Rightarrow>
          if target_raises F t then None
          else
            (let el = target t in
             case sizeof el of
               None \<Rightarrow> None
             | Some es \<Rightarrow>
                 if es > 0 then
                   (case sizeof t of
                      None \<Rightarrow> None
                    | Some ts \<Rightarrow> if ts > 0 then Some (ts div es) else None)
                 else None))"

text \<open>\<^verbatim>\<open>fmt_addr\<close>: \<^verbatim>\<open>str(v)\<close> is called in the handler, when \<^verbatim>\<open>int(v)\<close> raised.\<close>

definition fmt_addr_x :: "faults \<Rightarrow> gdb_value \<Rightarrow> uncaught + string" where
  "fmt_addr_x F v =
     (case as_int v of
        Some n \<Rightarrow> Inr (''0x'' @ format_x n)
      | None \<Rightarrow> if str_value_raises F v then Inl StrOfValueRaised else Inr (as_str v))"

text \<open>
  \<^verbatim>\<open>_report_pointer\<close>: the f-string calls \<^verbatim>\<open>typename\<close>, then \<^verbatim>\<open>fmt_addr\<close>; when
  either raises nothing is written and the count stays.
\<close>

definition report_pointer_x ::
  "faults \<Rightarrow> gdb_value \<Rightarrow> gdb_type \<Rightarrow> string \<Rightarrow> state \<Rightarrow> uncaught option \<times> state" where
  "report_pointer_x F pval ptype path st =
     (case typename_x F ptype of
        Inl e \<Rightarrow> (Some e, st)
      | Inr tn \<Rightarrow>
          (case fmt_addr_x F pval of
             Inl e \<Rightarrow> (Some e, st)
           | Inr addr \<Rightarrow>
               (let st1 = gdb_write (Report path tn addr) st
                in (None, st1\<lparr>count := count st1 + 1\<rparr>))))"

text \<open>
  \<^verbatim>\<open>_walk_value\<close>. The folds carry the exception, if one was raised, beside the
  state: once it is there the remaining passes of the loop do nothing. The
  state beside an exception is the state at the moment it was raised.
\<close>

function walk_value_x ::
  "faults \<Rightarrow> gdb_value \<Rightarrow> string \<Rightarrow> state \<Rightarrow> uncaught option \<times> state" where
  "walk_value_x F val path st =
     (let t = strip (vtype val) in
      if is_ptr t then report_pointer_x F val t path st
      else if is_array t then
        (case array_len_x F t of
           None \<Rightarrow>
             if target_raises F t then (Some TargetRaised, st)
             else
               (case typename_x F (target t) of
                  Inl e \<Rightarrow> (Some e, st)
                | Inr tn \<Rightarrow> (None, gdb_write (UnknownLength path tn) st))
         | Some n \<Rightarrow>
             fold (\<lambda>i r.
                     case r of
                       (Some e, st') \<Rightarrow> r
                     | (None, st') \<Rightarrow>
                         (case getitem val i of
                            None \<Rightarrow>
                              (None, gdb_write
                                 (InaccessibleElement (path @ ''['' @ str_int (int i) @ '']'')) st')
                          | Some elem \<Rightarrow>
                              walk_value_x F elem (path @ ''['' @ str_int (int i) @ '']'') st'))
                  (py_range n) (None, st))
      else if is_struct t then
        if fields_raises F t then (Some FieldsRaised, st)
        else
          fold (\<lambda>(i, f) r.
                  case r of
                    (Some e, st') \<Rightarrow> r
                  | (None, st') \<Rightarrow>
                      if artificial f then (None, st')
                      else
                        (let fname = field_name f;
                             ft = strip (ftype f);
                             full = path @ ''.'' @ fname
                         in case getitem val i of
                              None \<Rightarrow> (None, gdb_write (Inaccessible full) st')
                            | Some fval \<Rightarrow>
                                if is_ptr ft then report_pointer_x F fval ft full st'
                                else if is_array ft \<or> is_struct ft \<or> is_union ft
                                then walk_value_x F fval full st'
                                else (None, st')))
               (enumerate 0 (fields_of t)) (None, st)
      else if is_union t then
        if fields_raises F t then (Some FieldsRaised, st)
        else
          fold (\<lambda>(i, f) r.
                  case r of
                    (Some e, st') \<Rightarrow> r
                  | (None, st') \<Rightarrow>
                      (let fname = field_name f;
                           ft = strip (ftype f);
                           full = path @ ''.'' @ fname
                       in case getitem val i of
                            None \<Rightarrow> (None, gdb_write (Inaccessible full) st')
                          | Some fval \<Rightarrow>
                              if is_ptr ft then report_pointer_x F fval ft full st'
                              else if is_array ft \<or> is_struct ft \<or> is_union ft
                              then walk_value_x F fval full st'
                              else (None, st')))
               (enumerate 0 (fields_of t)) (None, st)
      else (None, st))"
  by pat_completeness auto
termination
proof -
  have sub: "size elem < size val" if "getitem val i = Some elem" for val i elem
  proof -
    from that have "Some elem \<in> set (subs val)"
      by (auto simp: getitem_def split: if_splits dest: nth_mem)
    then have "size_option size (Some elem) \<le> size_list (size_option size) (subs val)"
      by (simp add: size_list_estimation')
    then show ?thesis by (cases val) simp
  qed
  show ?thesis
    by (relation "measure (\<lambda>(F, val, path, st). size val)") (auto dest: sub)
qed

declare walk_value_x.simps [simp del]

text \<open>\<^verbatim>\<open>run\<close>: the total is written only when the walk returns.\<close>

definition run_x :: "faults \<Rightarrow> gdb_value \<Rightarrow> string \<Rightarrow> state \<Rightarrow> uncaught option \<times> state" where
  "run_x F val root_name st =
     (let st1 = st\<lparr>count := 0\<rparr> in
      case walk_value_x F val root_name st1 of
        (Some e, st2) \<Rightarrow> (Some e, st2)
      | (None, st2) \<Rightarrow> (None, gdb_write (Total (count st2)) st2))"

text \<open>
  \<^verbatim>\<open>invoke\<close>: \<^verbatim>\<open>enum.run\<close> is called outside every \<^verbatim>\<open>try\<close>, so an exception of the
  walk leaves the command as it is, while the three failures before it are
  turned into a \<^verbatim>\<open>GdbError\<close>.
\<close>

datatype raised = Rejected gdb_error | Escaped uncaught

definition invoke_x ::
  "faults \<Rightarrow> (string \<Rightarrow> string + string list) \<Rightarrow> (string \<Rightarrow> string + gdb_value) \<Rightarrow>
   string \<Rightarrow> bool \<Rightarrow> out_line list \<Rightarrow> raised option \<times> out_line list" where
  "invoke_x F string_to_argv parse_and_eval arg from_tty con =
     (case string_to_argv arg of
        Inl e \<Rightarrow> (Some (Rejected (GdbError e)), con)
      | Inr argv \<Rightarrow>
          if argv = [] then (Some (Rejected (GdbError ''usage: structptrs EXPR'')), con)
          else
            (let expr = join_space argv in
             case parse_and_eval expr of
               Inl e \<Rightarrow> (Some (Rejected (GdbError (''failed to evaluate EXPR: '' @ e))), con)
             | Inr val \<Rightarrow>
                 (let enum = \<lparr>count = 0, console = con\<rparr>
                  in case run_x F val expr enum of
                       (Some e, st) \<Rightarrow> (Some (Escaped e), console st)
                     | (None, st) \<Rightarrow> (None, console st))))"

section \<open>What a walk writes\<close>

text \<open>
  \<open>emit ls\<close> is the effect of writing the lines \<open>ls\<close> through the enumerator:
  they are appended to the console and every Report Record among them adds one
  to the count. \<open>emitted val path\<close> is what a walk of \<open>val\<close> writes on an empty
  console.
\<close>

definition report_count :: "out_line list \<Rightarrow> int" where
  "report_count ls = int (length (filter is_report ls))"

definition emit :: "out_line list \<Rightarrow> state \<Rightarrow> state" where
  "emit ls st = st\<lparr>console := console st @ ls, count := count st + report_count ls\<rparr>"

definition emitted :: "gdb_value \<Rightarrow> string \<Rightarrow> out_line list" where
  "emitted val path = console (walk_value val path \<lparr>count = 0, console = []\<rparr>)"

text \<open>The lines of one pass through the body of the array loop, at index \<open>i\<close>.\<close>

definition elem_lines :: "gdb_value \<Rightarrow> string \<Rightarrow> nat \<Rightarrow> out_line list" where
  "elem_lines val path i =
     (case getitem val i of
        None \<Rightarrow> [InaccessibleElement (path @ ''['' @ str_int (int i) @ '']'')]
      | Some elem \<Rightarrow> emitted elem (path @ ''['' @ str_int (int i) @ '']''))"

text \<open>
  The lines of one pass through the body of the struct loop (after its test
  of \<^verbatim>\<open>artificial\<close>) and of the union loop, for the field \<open>f\<close> at position \<open>i\<close>.
\<close>

definition member_lines :: "gdb_value \<Rightarrow> string \<Rightarrow> nat \<times> gdb_field \<Rightarrow> out_line list" where
  "member_lines val path x =
     (case x of (i, f) \<Rightarrow>
        (let ft = strip (ftype f);
             full = path @ ''.'' @ field_name f
         in case getitem val i of
              None \<Rightarrow> [Inaccessible full]
            | Some fval \<Rightarrow>
                if is_ptr ft then [Report full (typename ft) (fmt_addr fval)]
                else if is_array ft \<or> is_struct ft \<or> is_union ft then emitted fval full
                else []))"

definition real_field :: "nat \<times> gdb_field \<Rightarrow> bool" where
  "real_field x = (\<not> artificial (snd x))"

text \<open>
  The path a line was written for, and whether a line belongs below a path:
  it is not the total line and its path starts with that path.
\<close>

fun line_path :: "out_line \<Rightarrow> string" where
  "line_path (Report p _ _) = p"
| "line_path (UnknownLength p _) = p"
| "line_path (InaccessibleElement p) = p"
| "line_path (Inaccessible p) = p"
| "line_path (Total _) = []"

fun is_total :: "out_line \<Rightarrow> bool" where
  "is_total (Total _) = True"
| "is_total _ = False"

definition below :: "string \<Rightarrow> out_line \<Rightarrow> bool" where
  "below p l = (\<not> is_total l \<and> take (length p) (line_path l) = p)"

text \<open>Reading a string of lowercase hexadecimal digits back as a number.\<close>

definition is_hex_digit :: "char \<Rightarrow> bool" where
  "is_hex_digit c = (c \<in> set ''0123456789abcdef'')"

definition hex_digit_value :: "char \<Rightarrow> int" where
  "hex_digit_value c =
     (if c \<in> set ''0123456789'' then of_char c - 48 else of_char c - 87)"

definition hex_value :: "string \<Rightarrow> int" where
  "hex_value s = foldl (\<lambda>a c. 16 * a + hex_digit_value c) 0 s"

section \<open>Example types and values\<close>

text \<open>
  A 64-bit target: \<^verbatim>\<open>int\<close> of four bytes, pointers of eight. The values are
  what gdb would hand over for objects of these types; the text of \<^verbatim>\<open>str(v)\<close>
  matters only where \<^verbatim>\<open>int(v)\<close> raises.
\<close>

definition int_t :: gdb_type where
  "int_t = OtherType None ''int'' (Some 4)"

definition char_ptr :: gdb_type where
  "char_ptr = PtrType None ''char *'' (Some 8)"

definition void_ptr :: gdb_type where
  "void_ptr = PtrType None ''void *'' (Some 8)"

definition int_val :: "int \<Rightarrow> gdb_value" where
  "int_val n = Value int_t (Some n) (str_int n) []"

definition ptr_val :: "gdb_type \<Rightarrow> int \<Rightarrow> gdb_value" where
  "ptr_val t a = Value t (Some a) (''0x'' @ format_x a) []"


text \<open>\<^verbatim>\<open>int [2]\<close> and \<^verbatim>\<open>char *[2]\<close>, with the bounds gdb reports.\<close>

definition int_arr2 :: gdb_type where
  "int_arr2 = ArrayType None ''int [2]'' (Some 8) (Some (0, 1)) int_t"

definition ptr_arr2 :: gdb_type where
  "ptr_arr2 = ArrayType None ''char *[2]'' (Some 16) (Some (0, 1)) char_ptr"

text \<open>
  The scenario of the specification:
  \<^verbatim>\<open>struct demo { int a; char *name; int arr[2]; }\<close> with \<^verbatim>\<open>name\<close> at \<^verbatim>\<open>0x1000\<close>.
\<close>

definition demo_t :: gdb_type where
  "demo_t = StructType (Some ''demo'') ''struct demo'' (Some 24)
     [Field (Some ''a'') False int_t,
      Field (Some ''name'') False char_ptr,
      Field (Some ''arr'') False int_arr2]"

definition demo_val :: gdb_value where
  "demo_val = Value demo_t None ''{...}''
     [Some (int_val 7),
      Some (ptr_val char_ptr 0x1000),
      Some (Value int_arr2 None ''{1, 2}'' [Some (int_val 1), Some (int_val 2)])]"


text \<open>
  Two array types whose \<^verbatim>\<open>range()\<close> raises. The first has no size either, as a
  trailing \<^verbatim>\<open>char *tail[]\<close> would; the second has the sizes of \<^verbatim>\<open>char *[2]\<close>.
\<close>

definition flex_arr :: gdb_type where
  "flex_arr = ArrayType None ''char *[]'' None None char_ptr"

definition flex_val :: gdb_value where
  "flex_val = Value flex_arr None ''0x601040''
     [Some (ptr_val char_ptr 0x1000), Some (ptr_val char_ptr 0x2000)]"

definition sized_arr :: gdb_type where
  "sized_arr = ArrayType None ''char *[2]'' (Some 16) None char_ptr"

definition sized_val :: gdb_value where
  "sized_val = Value sized_arr None ''{0x1000, 0x2000}''
     [Some (ptr_val char_ptr 0x1000), Some (ptr_val char_ptr 0x2000)]"

text \<open>
  The struct of the specification's order property: fields \<^verbatim>\<open>a\<close>, \<^verbatim>\<open>b\<close>, \<^verbatim>\<open>c\<close>,
  where \<^verbatim>\<open>b\<close> is an array of two pointers and \<^verbatim>\<open>a\<close> and \<^verbatim>\<open>c\<close> are pointers.
\<close>

definition abc_t :: gdb_type where
  "abc_t = StructType (Some ''abc'') ''struct abc'' (Some 32)
     [Field (Some ''a'') False char_ptr,
      Field (Some ''b'') False ptr_arr2,
      Field (Some ''c'') False void_ptr]"

definition b_val :: gdb_value where
  "b_val = Value ptr_arr2 None ''{0x2000, 0x3000}''
     [Some (ptr_val char_ptr 0x2000), Some (ptr_val char_ptr 0x3000)]"

definition abc_val :: gdb_value where
  "abc_val = Value abc_t None ''{...}''
     [Some (ptr_val char_ptr 0x1000), Some b_val, Some (ptr_val void_ptr 0x4000)]"

text \<open>\<^verbatim>\<open>union pu { char *p; void *q; }\<close>: two readings of the same eight bytes.\<close>

definition pu_t :: gdb_type where
  "pu_t = UnionType (Some ''pu'') ''union pu'' (Some 8)
     [Field (Some ''p'') False char_ptr, Field (Some ''q'') False void_ptr]"

definition pu_val :: gdb_value where
  "pu_val = Value pu_t None ''{...}''
     [Some (ptr_val char_ptr 0xbeef0), Some (ptr_val void_ptr 0xbeef0)]"

text \<open>
  Values with one unreadable sub-value: the middle element of a \<^verbatim>\<open>char *[3]\<close>,
  the field \<^verbatim>\<open>b\<close> of a \<^verbatim>\<open>struct abc\<close>, the member \<^verbatim>\<open>p\<close> of a \<^verbatim>\<open>union pu\<close>.
\<close>

definition ptr_arr3 :: gdb_type where
  "ptr_arr3 = ArrayType None ''char *[3]'' (Some 24) (Some (0, 2)) char_ptr"

definition gap_arr_val :: gdb_value where
  "gap_arr_val = Value ptr_arr3 None ''{...}''
     [Some (ptr_val char_ptr 0x1000), None, Some (ptr_val char_ptr 0x3000)]"

definition gap_abc_val :: gdb_value where
  "gap_abc_val = Value abc_t None ''{...}''
     [Some (ptr_val char_ptr 0x1000), None, Some (ptr_val void_ptr 0x4000)]"

definition gap_pu_val :: gdb_value where
  "gap_pu_val = Value pu_t None ''{...}'' [None, Some (ptr_val void_ptr 0xbeef0)]"

text \<open>
  A union and a struct with the same two members, the first flagged artificial
  in the debug information.
\<close>

definition art_fields :: "gdb_field list" where
  "art_fields =
     [Field (Some ''_vptr'') True void_ptr, Field (Some ''p'') False char_ptr]"

definition art_union_val :: gdb_value where
  "art_union_val = Value (UnionType (Some ''tagged'') ''union tagged'' (Some 8) art_fields)
     None ''{...}'' [Some (ptr_val void_ptr 0x5000), Some (ptr_val char_ptr 0x5000)]"

definition art_struct_val :: gdb_value where
  "art_struct_val = Value (StructType (Some ''tagged'') ''struct tagged'' (Some 16) art_fields)
     None ''{...}'' [Some (ptr_val void_ptr 0x5000), Some (ptr_val char_ptr 0x1000)]"

text \<open>
  A pointer whose value gdb cannot produce: \<^verbatim>\<open>int(v)\<close> raises and \<^verbatim>\<open>str(v)\<close> is
  the placeholder gdb prints.
\<close>

definition unread_ptr_val :: gdb_value where
  "unread_ptr_val = Value char_ptr None ''<optimized out>'' []"

text \<open>
  A pointer that gdb cannot read at all: \<^verbatim>\<open>int(v)\<close> raises and so does \<^verbatim>\<open>str(v)\<close>,
  as when the memory of the value is not mapped. It is the field \<^verbatim>\<open>c\<close> of a
  \<^verbatim>\<open>struct abc\<close> whose other fields read well.
\<close>

definition unmapped_ptr_val :: gdb_value where
  "unmapped_ptr_val = Value void_ptr None [] []"

definition torn_abc_val :: gdb_value where
  "torn_abc_val = Value abc_t None ''{...}''
     [Some (ptr_val char_ptr 0x1000), Some b_val, Some unmapped_ptr_val]"

definition unmapped_faults :: faults where
  "unmapped_faults = no_faults\<lparr>str_value_raises := (\<lambda>v. v = unmapped_ptr_val)\<rparr>"

text \<open>The other two calls outside a \<^verbatim>\<open>try\<close>, each raising on one type.\<close>

definition tail_faults :: faults where
  "tail_faults = no_faults\<lparr>target_raises := (\<lambda>t. t = flex_arr)\<rparr>"

definition fields_faults :: faults where
  "fields_faults = no_faults\<lparr>fields_raises := (\<lambda>t. t = abc_t)\<rparr>"

text \<open>
  A small stand-in for gdb's side of the command: splitting fails on a lone
  quote, an empty line has no words, anything else is one word; the
  expressions \<^verbatim>\<open>s\<close> and \<^verbatim>\<open>tail\<close> evaluate, no other does.
\<close>

definition demo_argv :: "string \<Rightarrow> string + string list" where
  "demo_argv s =
     (if s = [CHR 0x22] then Inl ''Unterminated quoted string''
      else if s = [] then Inr []
      else Inr [s])"

definition torn_eval :: "string \<Rightarrow> string + gdb_value" where
  "torn_eval e =
     (if e = ''s'' then Inr torn_abc_val
      else if e = ''tail'' then Inr flex_val
      else Inl (''No symbol '' @ e @ '' in current context.''))"

section \<open>Stripping is idempotent\<close>

lemma strip_typedefs_fix: "strip_typedefs t = Some u \<Longrightarrow> strip_typedefs u = Some u"
  by (induction t rule: strip_typedefs.induct) auto

lemma strip_strip: "strip (strip t) = strip t"
  by (auto simp: strip_def split: option.splits dest: strip_typedefs_fix)

lemma is_ptr_strip: "is_ptr (strip t) = (code (strip t) = TYPE_CODE_PTR)"
  by (simp add: is_ptr_def strip_strip)

lemma is_array_strip: "is_array (strip t) = (code (strip t) = TYPE_CODE_ARRAY)"
  by (simp add: is_array_def strip_strip)

lemma is_struct_strip: "is_struct (strip t) = (code (strip t) = TYPE_CODE_STRUCT)"
  by (simp add: is_struct_def strip_strip)

lemma is_union_strip: "is_union (strip t) = (code (strip t) = TYPE_CODE_UNION)"
  by (simp add: is_union_def strip_strip)

section \<open>A walk only appends lines, and counts the Report Records among them\<close>

lemma emit_Nil: "emit [] st = st"
  by (simp add: emit_def report_count_def)

lemma emit_emit: "emit ls (emit ks st) = emit (ks @ ls) st"
  by (simp add: emit_def report_count_def)

lemma gdb_write_emit: "\<not> is_report l \<Longrightarrow> gdb_write l st = emit [l] st"
  by (simp add: gdb_write_def emit_def report_count_def)

lemma report_pointer_emit:
  "report_pointer pval ptype path st = emit [Report path (typename ptype) (fmt_addr pval)] st"
  by (simp add: report_pointer_def gdb_write_def emit_def report_count_def Let_def)

lemma fold_emit:
  "(\<And>x st. x \<in> set xs \<Longrightarrow> f x st = emit (g x) st) \<Longrightarrow>
   fold f xs st = emit (concat (map g xs)) st"
proof (induction xs arbitrary: st)
  case Nil
  show ?case by (simp add: emit_Nil)
next
  case (Cons x xs)
  have "fold f (x # xs) st = fold f xs (f x st)" by simp
  also have "\<dots> = emit (concat (map g xs)) (f x st)" using Cons by simp
  also have "f x st = emit (g x) st" using Cons.prems by simp
  finally show ?case by (simp add: emit_emit)
qed

lemma fold_emit_ex:
  "(\<And>x. x \<in> set xs \<Longrightarrow> \<exists>ls. \<forall>st. f x st = emit ls st) \<Longrightarrow>
   \<exists>ls. \<forall>st. fold f xs st = emit ls st"
proof (induction xs)
  case Nil
  have "\<forall>st. fold f [] st = emit [] st" by (simp add: emit_Nil)
  then show ?case by blast
next
  case (Cons x xs)
  from Cons.prems obtain a where a: "\<forall>st. f x st = emit a st" by auto
  from Cons obtain b where b: "\<forall>st. fold f xs st = emit b st" by auto
  have "\<forall>st. fold f (x # xs) st = emit (a @ b) st" by (simp add: a b emit_emit)
  then show ?case by blast
qed

lemma elem_step_ex:
  assumes "\<And>elem. getitem val i = Some elem \<Longrightarrow> \<exists>ls. \<forall>st. walk_value elem p st = emit ls st"
  shows "\<exists>ls. \<forall>st. (case getitem val i of
                        None \<Rightarrow> gdb_write (InaccessibleElement p) st
                      | Some elem \<Rightarrow> walk_value elem p st) = emit ls st"
proof (cases "getitem val i")
  case None
  then have "\<forall>st. (case getitem val i of
                      None \<Rightarrow> gdb_write (InaccessibleElement p) st
                    | Some elem \<Rightarrow> walk_value elem p st) = emit [InaccessibleElement p] st"
    by (simp add: gdb_write_emit)
  then show ?thesis by blast
next
  case (Some elem)
  with assms[OF Some] show ?thesis by simp
qed

lemma member_step_ex:
  assumes "\<And>fval. getitem val i = Some fval \<Longrightarrow> \<not> is_ptr ft \<Longrightarrow>
             is_array ft \<or> is_struct ft \<or> is_union ft \<Longrightarrow>
             \<exists>ls. \<forall>st. walk_value fval full st = emit ls st"
  shows "\<exists>ls. \<forall>st. (case getitem val i of
                        None \<Rightarrow> gdb_write (Inaccessible full) st
                      | Some fval \<Rightarrow>
                          if is_ptr ft then report_pointer fval ft full st
                          else if is_array ft \<or> is_struct ft \<or> is_union ft
                          then walk_value fval full st
                          else st) = emit ls st"
    (is "\<exists>ls. \<forall>st. ?step st = emit ls st")
proof (cases "getitem val i")
  case None
  then have "\<forall>st. ?step st = emit [Inaccessible full] st"
    by (simp add: gdb_write_emit)
  then show ?thesis by blast
next
  case (Some fval)
  consider (ptr) "is_ptr ft"
    | (agg) "\<not> is_ptr ft" "is_array ft \<or> is_struct ft \<or> is_union ft"
    | (scalar) "\<not> is_ptr ft" "\<not> (is_array ft \<or> is_struct ft \<or> is_union ft)"
    by blast
  then show ?thesis
  proof cases
    case ptr
    then have "\<forall>st. ?step st = emit [Report full (typename ft) (fmt_addr fval)] st"
      by (simp add: Some report_pointer_emit)
    then show ?thesis by blast
  next
    case agg
    with assms[OF Some] show ?thesis by (simp add: Some)
  next
    case scalar
    then have "\<forall>st. ?step st = emit [] st"
      by (simp add: Some emit_Nil)
    then show ?thesis by blast
  qed
qed

lemma walk_value_emit_ex:
  fixes st :: state
  shows "\<exists>ls. \<forall>st'. walk_value val path st' = emit ls st'"
proof (induction val path st rule: walk_value.induct)
  case (1 val path st)
  define t where "t = strip (vtype val)"
  consider (ptr) "is_ptr t"
    | (unknown) "\<not> is_ptr t" "is_array t" "array_len t = None"
    | (array) n where "\<not> is_ptr t" "is_array t" "array_len t = Some n"
    | (struct) "\<not> is_ptr t" "\<not> is_array t" "is_struct t"
    | (union) "\<not> is_ptr t" "\<not> is_array t" "\<not> is_struct t" "is_union t"
    | (scalar) "\<not> is_ptr t" "\<not> is_array t" "\<not> is_struct t" "\<not> is_union t"
    by (cases "array_len t") blast+
  then show ?case
  proof cases
    case ptr
    then have "\<forall>st'. walk_value val path st' = emit [Report path (typename t) (fmt_addr val)] st'"
      by (simp add: walk_value.simps[of val] t_def report_pointer_emit)
    then show ?thesis by blast
  next
    case unknown
    then have "\<forall>st'. walk_value val path st' = emit [UnknownLength path (typename (target t))] st'"
      by (simp add: walk_value.simps[of val] t_def[symmetric] gdb_write_emit)
    then show ?thesis by blast
  next
    case array
    have "\<exists>ls. \<forall>st. fold (\<lambda>i st'.
                 case getitem val i of
                   None \<Rightarrow> gdb_write (InaccessibleElement (path @ ''['' @ str_int (int i) @ '']'')) st'
                 | Some elem \<Rightarrow> walk_value elem (path @ ''['' @ str_int (int i) @ '']'') st')
              (py_range n) st = emit ls st"
      by (rule fold_emit_ex, rule elem_step_ex) (rule "1.IH"(1)[OF t_def array])
    with array show ?thesis
      by (simp add: walk_value.simps[of val] t_def[symmetric])
  next
    case struct
    have "\<exists>ls. \<forall>st. fold (\<lambda>(i, f) st'.
            if artificial f then st'
            else
              (let fname = field_name f;
                   ft = strip (ftype f);
                   full = path @ ''.'' @ fname
               in case getitem val i of
                    None \<Rightarrow> gdb_write (Inaccessible full) st'
                  | Some fval \<Rightarrow>
                      if is_ptr ft then report_pointer fval ft full st'
                      else if is_array ft \<or> is_struct ft \<or> is_union ft
                      then walk_value fval full st'
                      else st'))
         (enumerate 0 (fields_of t)) st = emit ls st"
      (is "\<exists>ls. \<forall>st. fold ?body _ st = emit ls st")
    proof (rule fold_emit_ex)
      fix x assume x: "x \<in> set (enumerate 0 (fields_of t))"
      obtain i f where xif: "x = (i, f)" by (cases x)
      show "\<exists>ls. \<forall>st. ?body x st = emit ls st"
      proof (cases "artificial f")
        case True
        then have "\<forall>st. ?body x st = emit [] st" by (simp add: xif emit_Nil)
        then show ?thesis by blast
      next
        case False
        have "\<exists>ls. \<forall>st. (case getitem val i of
                    None \<Rightarrow> gdb_write (Inaccessible (path @ ''.'' @ field_name f)) st
                  | Some fval \<Rightarrow>
                      if is_ptr (strip (ftype f)) then report_pointer fval (strip (ftype f)) (path @ ''.'' @ field_name f) st
                      else if is_array (strip (ftype f)) \<or> is_struct (strip (ftype f)) \<or> is_union (strip (ftype f))
                      then walk_value fval (path @ ''.'' @ field_name f) st
                      else st) = emit ls st"
          by (rule member_step_ex)
             (rule "1.IH"(2)[OF t_def struct x xif[symmetric] False refl refl refl])
        with False show ?thesis unfolding xif by (simp only: Let_def prod.case if_False)
      qed
    qed
    with struct show ?thesis
      by (simp add: walk_value.simps[of val] t_def[symmetric])
  next
    case union
    have "\<exists>ls. \<forall>st. fold (\<lambda>(i, f) st'.
              (let fname = field_name f;
                   ft = strip (ftype f);
                   full = path @ ''.'' @ fname
               in case getitem val i of
                    None \<Rightarrow> gdb_write (Inaccessible full) st'
                  | Some fval \<Rightarrow>
                      if is_ptr ft then report_pointer fval ft full st'
                      else if is_array ft \<or> is_struct ft \<or> is_union ft
                      then walk_value fval full st'
                      else st'))
         (enumerate 0 (fields_of t)) st = emit ls st"
      (is "\<exists>ls. \<forall>st. fold ?body _ st = emit ls st")
    proof (rule fold_emit_ex)
      fix x assume x: "x \<in> set (enumerate 0 (fields_of t))"
      obtain i f where xif: "x = (i, f)" by (cases x)
      have "\<exists>ls. \<forall>st. (case getitem val i of
                  None \<Rightarrow> gdb_write (Inaccessible (path @ ''.'' @ field_name f)) st
                | Some fval \<Rightarrow>
                    if is_ptr (strip (ftype f)) then report_pointer fval (strip (ftype f)) (path @ ''.'' @ field_name f) st
                    else if is_array (strip (ftype f)) \<or> is_struct (strip (ftype f)) \<or> is_union (strip (ftype f))
                    then walk_value fval (path @ ''.'' @ field_name f) st
                    else st) = emit ls st"
        by (rule member_step_ex)
           (rule "1.IH"(3)[OF t_def union x xif[symmetric] refl refl refl])
      then show "\<exists>ls. \<forall>st. ?body x st = emit ls st" unfolding xif by (simp only: Let_def prod.case)
    qed
    with union show ?thesis
      by (simp add: walk_value.simps[of val] t_def[symmetric])
  next
    case scalar
    then have "\<forall>st'. walk_value val path st' = emit [] st'"
      by (simp add: walk_value.simps[of val] t_def[symmetric] emit_Nil)
    then show ?thesis by blast
  qed
qed

lemma walk_value_emit: "walk_value val path st = emit (emitted val path) st"
proof -
  obtain ls where ls: "\<forall>st'. walk_value val path st' = emit ls st'"
    using walk_value_emit_ex by blast
  have "emitted val path = ls"
    by (simp add: emitted_def ls emit_def)
  with ls show ?thesis by simp
qed

lemma emitted_eqI: "(\<And>st. walk_value val path st = emit ls st) \<Longrightarrow> emitted val path = ls"
  by (simp add: emitted_def emit_def)

lemma walk_value_console: "console (walk_value val path st) = console st @ emitted val path"
  by (simp add: walk_value_emit emit_def)

lemma walk_value_count: "count (walk_value val path st) = count st + report_count (emitted val path)"
  by (simp add: walk_value_emit emit_def)

lemma report_count_append: "report_count (xs @ ys) = report_count xs + report_count ys"
  by (simp add: report_count_def)

lemma report_count_diag: "\<not> is_report l \<Longrightarrow> report_count (xs @ [l] @ ys) = report_count xs + report_count ys"
  by (simp add: report_count_def)

lemma run_emit:
  "run val root_name st =
     \<lparr>count = report_count (emitted val root_name),
      console = console st @ emitted val root_name
                  @ [Total (report_count (emitted val root_name))]\<rparr>"
  by (simp add: run_def Let_def walk_value_emit emit_def gdb_write_def)

section \<open>The lines of each kind of value\<close>

lemma elem_step_emit:
  "(case getitem val i of
      None \<Rightarrow> gdb_write (InaccessibleElement (path @ ''['' @ str_int (int i) @ '']'')) st
    | Some elem \<Rightarrow> walk_value elem (path @ ''['' @ str_int (int i) @ '']'') st)
   = emit (elem_lines val path i) st"
  by (cases "getitem val i") (simp_all add: elem_lines_def gdb_write_emit walk_value_emit)

lemma member_step_emit:
  "(let fname = field_name f;
        ft = strip (ftype f);
        full = path @ ''.'' @ fname
    in case getitem val i of
         None \<Rightarrow> gdb_write (Inaccessible full) st
       | Some fval \<Rightarrow>
           if is_ptr ft then report_pointer fval ft full st
           else if is_array ft \<or> is_struct ft \<or> is_union ft
           then walk_value fval full st
           else st)
   = emit (member_lines val path (i, f)) st"
  by (cases "getitem val i")
     (simp_all add: member_lines_def Let_def gdb_write_emit report_pointer_emit emit_Nil
        walk_value_emit[symmetric])

lemma concat_map_if_filter:
  "concat (map (\<lambda>x. if P x then f x else []) xs) = concat (map f (filter P xs))"
  by (induction xs) simp_all

lemma walk_value_ptr:
  assumes "code (strip (vtype val)) = TYPE_CODE_PTR"
  shows "walk_value val path st =
         emit [Report path (typename (strip (vtype val))) (fmt_addr val)] st"
  using assms by (simp add: walk_value.simps[of val] is_ptr_strip report_pointer_emit)

lemma walk_value_unknown:
  assumes "code (strip (vtype val)) = TYPE_CODE_ARRAY"
    and "array_len (strip (vtype val)) = None"
  shows "walk_value val path st =
         emit [UnknownLength path (typename (target (strip (vtype val))))] st"
  using assms
  by (simp add: walk_value.simps[of val] is_ptr_strip is_array_strip gdb_write_emit)

lemma walk_value_array:
  assumes "code (strip (vtype val)) = TYPE_CODE_ARRAY"
    and "array_len (strip (vtype val)) = Some n"
  shows "walk_value val path st = emit (concat (map (elem_lines val path) (py_range n))) st"
proof -
  have "walk_value val path st =
        fold (\<lambda>i st'.
               case getitem val i of
                 None \<Rightarrow> gdb_write (InaccessibleElement (path @ ''['' @ str_int (int i) @ '']'')) st'
               | Some elem \<Rightarrow> walk_value elem (path @ ''['' @ str_int (int i) @ '']'') st')
             (py_range n) st"
    using assms by (simp add: walk_value.simps[of val] is_ptr_strip is_array_strip)
  also have "\<dots> = emit (concat (map (elem_lines val path) (py_range n))) st"
    by (rule fold_emit) (rule elem_step_emit)
  finally show ?thesis .
qed

lemma walk_value_struct:
  assumes "code (strip (vtype val)) = TYPE_CODE_STRUCT"
  shows "walk_value val path st =
         emit (concat (map (member_lines val path)
                 (filter real_field (enumerate 0 (fields_of (strip (vtype val))))))) st"
proof -
  let ?g = "\<lambda>x. if real_field x then member_lines val path x else []"
  have "walk_value val path st =
        fold (\<lambda>(i, f) st'.
                if artificial f then st'
                else
                  (let fname = field_name f;
                       ft = strip (ftype f);
                       full = path @ ''.'' @ fname
                   in case getitem val i of
                        None \<Rightarrow> gdb_write (Inaccessible full) st'
                      | Some fval \<Rightarrow>
                          if is_ptr ft then report_pointer fval ft full st'
                          else if is_array ft \<or> is_struct ft \<or> is_union ft
                          then walk_value fval full st'
                          else st'))
             (enumerate 0 (fields_of (strip (vtype val)))) st"
    using assms
    by (simp add: walk_value.simps[of val] is_ptr_strip is_array_strip is_struct_strip)
  also have "\<dots> = emit (concat (map ?g (enumerate 0 (fields_of (strip (vtype val)))))) st"
  proof (rule fold_emit)
    fix x :: "nat \<times> gdb_field" and st' :: state
    obtain i f where xif: "x = (i, f)" by (cases x)
    show "(case x of (i, f) \<Rightarrow> \<lambda>st'.
                if artificial f then st'
                else
                  (let fname = field_name f;
                       ft = strip (ftype f);
                       full = path @ ''.'' @ fname
                   in case getitem val i of
                        None \<Rightarrow> gdb_write (Inaccessible full) st'
                      | Some fval \<Rightarrow>
                          if is_ptr ft then report_pointer fval ft full st'
                          else if is_array ft \<or> is_struct ft \<or> is_union ft
                          then walk_value fval full st'
                          else st')) st' = emit (?g x) st'"
      unfolding xif prod.case
      by (cases "artificial f") (simp_all only: member_step_emit real_field_def snd_conv if_True if_False emit_Nil not_True_eq_False not_False_eq_True)
  qed
  finally show ?thesis by (simp only: concat_map_if_filter)
qed

lemma walk_value_union:
  assumes "code (strip (vtype val)) = TYPE_CODE_UNION"
  shows "walk_value val path st =
         emit (concat (map (member_lines val path)
                 (enumerate 0 (fields_of (strip (vtype val)))))) st"
proof -
  have "walk_value val path st =
        fold (\<lambda>(i, f) st'.
                  (let fname = field_name f;
                       ft = strip (ftype f);
                       full = path @ ''.'' @ fname
                   in case getitem val i of
                        None \<Rightarrow> gdb_write (Inaccessible full) st'
                      | Some fval \<Rightarrow>
                          if is_ptr ft then report_pointer fval ft full st'
                          else if is_array ft \<or> is_struct ft \<or> is_union ft
                          then walk_value fval full st'
                          else st'))
             (enumerate 0 (fields_of (strip (vtype val)))) st"
    using assms
    by (simp add: walk_value.simps[of val] is_ptr_strip is_array_strip is_struct_strip
          is_union_strip)
  also have "\<dots> = emit (concat (map (member_lines val path)
                        (enumerate 0 (fields_of (strip (vtype val)))))) st"
  proof (rule fold_emit)
    fix x :: "nat \<times> gdb_field" and st' :: state
    obtain i f where xif: "x = (i, f)" by (cases x)
    show "(case x of (i, f) \<Rightarrow> \<lambda>st'.
                  (let fname = field_name f;
                       ft = strip (ftype f);
                       full = path @ ''.'' @ fname
                   in case getitem val i of
                        None \<Rightarrow> gdb_write (Inaccessible full) st'
                      | Some fval \<Rightarrow>
                          if is_ptr ft then report_pointer fval ft full st'
                          else if is_array ft \<or> is_struct ft \<or> is_union ft
                          then walk_value fval full st'
                          else st')) st' = emit (member_lines val path x) st'"
      unfolding xif prod.case by (rule member_step_emit)
  qed
  finally show ?thesis .
qed

lemma walk_value_scalar:
  assumes "code (strip (vtype val)) = TYPE_CODE_TYPEDEF \<or> code (strip (vtype val)) = TYPE_CODE_OTHER"
  shows "walk_value val path st = st"
  using assms
  by (auto simp add: walk_value.simps[of val] is_ptr_strip is_array_strip is_struct_strip
          is_union_strip)

lemma emitted_array:
  assumes "code (strip (vtype val)) = TYPE_CODE_ARRAY"
    and "array_len (strip (vtype val)) = Some n"
  shows "emitted val path = concat (map (elem_lines val path) [0..<nat n])"
  using walk_value_array[OF assms] by (simp add: emitted_eqI py_range_def)

lemma emitted_struct:
  assumes "code (strip (vtype val)) = TYPE_CODE_STRUCT"
  shows "emitted val path =
         concat (map (member_lines val path)
           (filter real_field (enumerate 0 (fields_of (strip (vtype val))))))"
  using walk_value_struct[OF assms] by (simp add: emitted_eqI)

lemma emitted_union:
  assumes "code (strip (vtype val)) = TYPE_CODE_UNION"
  shows "emitted val path =
         concat (map (member_lines val path) (enumerate 0 (fields_of (strip (vtype val)))))"
  using walk_value_union[OF assms] by (simp add: emitted_eqI)

lemma array_len_fallback:
  assumes "range_of (strip t) = None" "sizeof (strip t) = Some ts"
    "sizeof (target (strip t)) = Some es" "0 < ts" "0 < es"
  shows "array_len t = Some (ts div es)"
  using assms by (simp add: array_len_def Let_def)

section \<open>Every line of a walk lies below the path of the walk\<close>

lemma take_prefix_shorter:
  assumes "take (length p + length s) xs = p @ s"
  shows "take (length p) xs = p"
proof -
  have "take (length p) xs = take (length p) (take (length p + length s) xs)"
    by (simp add: min_def)
  also have "\<dots> = take (length p) (p @ s)"
    by (simp only: assms)
  finally show ?thesis by simp
qed

lemma below_append: "below (p @ s) l \<Longrightarrow> below p l"
  by (auto simp: below_def intro: take_prefix_shorter)

lemma below_self:
  "below p (Report (p @ s) a b)" "below p (UnknownLength (p @ s) a)"
  "below p (InaccessibleElement (p @ s))" "below p (Inaccessible (p @ s))"
  by (simp_all add: below_def)

lemma emitted_scalar:
  assumes "code (strip (vtype val)) = TYPE_CODE_TYPEDEF \<or> code (strip (vtype val)) = TYPE_CODE_OTHER"
  shows "emitted val path = []"
  using walk_value_scalar[OF assms] by (simp add: emitted_def)

lemma emitted_ptr:
  assumes "code (strip (vtype val)) = TYPE_CODE_PTR"
  shows "emitted val path = [Report path (typename (strip (vtype val))) (fmt_addr val)]"
  using walk_value_ptr[OF assms] by (simp add: emitted_eqI)

lemma emitted_unknown:
  assumes "code (strip (vtype val)) = TYPE_CODE_ARRAY" "array_len (strip (vtype val)) = None"
  shows "emitted val path = [UnknownLength path (typename (target (strip (vtype val))))]"
  using walk_value_unknown[OF assms] by (simp add: emitted_eqI)

lemma emitted_below:
  fixes st :: state
  shows "list_all (below path) (emitted val path)"
proof (induction val path st rule: walk_value.induct)
  case (1 val path st)
  define t where "t = strip (vtype val)"
  have cls: "is_ptr t = (code t = TYPE_CODE_PTR)" "is_array t = (code t = TYPE_CODE_ARRAY)"
    "is_struct t = (code t = TYPE_CODE_STRUCT)" "is_union t = (code t = TYPE_CODE_UNION)"
    by (simp_all add: t_def is_ptr_strip is_array_strip is_struct_strip is_union_strip)
  have member: "list_all (below path) (member_lines val path x)"
    if rec: "\<And>i f fval. x = (i, f) \<Longrightarrow> getitem val i = Some fval \<Longrightarrow>
               \<not> is_ptr (strip (ftype f)) \<Longrightarrow>
               is_array (strip (ftype f)) \<or> is_struct (strip (ftype f)) \<or> is_union (strip (ftype f)) \<Longrightarrow>
               list_all (below (path @ ''.'' @ field_name f)) (emitted fval (path @ ''.'' @ field_name f))"
    for x
  proof -
    obtain i f where x: "x = (i, f)" by (cases x)
    show ?thesis
    proof (cases "getitem val i")
      case None
      then show ?thesis by (simp add: x member_lines_def below_self)
    next
      case (Some fval)
      show ?thesis
      proof (cases "is_ptr (strip (ftype f))")
        case True
        then show ?thesis by (simp add: x member_lines_def Some below_self)
      next
        case np: False
        show ?thesis
        proof (cases "is_array (strip (ftype f)) \<or> is_struct (strip (ftype f)) \<or> is_union (strip (ftype f))")
          case True
          from rec[OF x Some np True]
          have "list_all (below path) (emitted fval (path @ ''.'' @ field_name f))"
            by (auto simp: list_all_iff intro: below_append)
          with True np show ?thesis by (simp add: x member_lines_def Some)
        next
          case False
          with np show ?thesis by (simp add: x member_lines_def Some)
        qed
      qed
    qed
  qed
  consider (ptr) "code t = TYPE_CODE_PTR"
    | (unknown) "code t = TYPE_CODE_ARRAY" "array_len t = None"
    | (array) n where "code t = TYPE_CODE_ARRAY" "array_len t = Some n"
    | (struct) "code t = TYPE_CODE_STRUCT"
    | (union) "code t = TYPE_CODE_UNION"
    | (scalar) "code t = TYPE_CODE_TYPEDEF \<or> code t = TYPE_CODE_OTHER"
    by (cases "code t"; cases "array_len t") auto
  then show ?case
  proof cases
    case ptr
    then show ?thesis
      using below_self(1)[of path "[]"] by (simp add: emitted_ptr t_def)
  next
    case unknown
    then show ?thesis
      using below_self(2)[of path "[]"] by (simp add: emitted_unknown t_def)
  next
    case array
    have "list_all (below path) (elem_lines val path i)" if i: "i \<in> set (py_range n)" for i
    proof (cases "getitem val i")
      case None
      then show ?thesis by (simp add: elem_lines_def below_self)
    next
      case (Some elem)
      from array have c: "\<not> is_ptr t" "is_array t" by (simp_all add: cls)
      from "1.IH"(1)[OF t_def c array(2) i Some]
      have "list_all (below path) (emitted elem (path @ ''['' @ str_int (int i) @ '']''))"
        by (auto simp: list_all_iff intro: below_append)
      then show ?thesis by (simp add: elem_lines_def Some)
    qed
    then show ?thesis
      using array by (simp add: emitted_array t_def[symmetric] list_all_iff py_range_def)
  next
    case struct
    then have c: "\<not> is_ptr t" "\<not> is_array t" "is_struct t" by (simp_all add: cls)
    have "list_all (below path) (member_lines val path x)"
      if x: "x \<in> set (filter real_field (enumerate 0 (fields_of t)))" for x
    proof (rule member)
      fix i f fval
      assume a: "x = (i, f)" "getitem val i = Some fval" "\<not> is_ptr (strip (ftype f))"
        "is_array (strip (ftype f)) \<or> is_struct (strip (ftype f)) \<or> is_union (strip (ftype f))"
      from x a(1) have xin: "x \<in> set (enumerate 0 (fields_of t))" and na: "\<not> artificial f"
        by (simp_all add: real_field_def)
      from "1.IH"(2)[OF t_def c xin a(1)[symmetric] na refl refl refl a(2) a(3) a(4)]
      show "list_all (below (path @ ''.'' @ field_name f)) (emitted fval (path @ ''.'' @ field_name f))" .
    qed
    then show ?thesis
      using struct by (simp add: emitted_struct t_def[symmetric] list_all_iff)
  next
    case union
    then have c: "\<not> is_ptr t" "\<not> is_array t" "\<not> is_struct t" "is_union t" by (simp_all add: cls)
    have "list_all (below path) (member_lines val path x)"
      if x: "x \<in> set (enumerate 0 (fields_of t))" for x
    proof (rule member)
      fix i f fval
      assume a: "x = (i, f)" "getitem val i = Some fval" "\<not> is_ptr (strip (ftype f))"
        "is_array (strip (ftype f)) \<or> is_struct (strip (ftype f)) \<or> is_union (strip (ftype f))"
      from "1.IH"(3)[OF t_def c x a(1)[symmetric] refl refl refl a(2) a(3) a(4)]
      show "list_all (below (path @ ''.'' @ field_name f)) (emitted fval (path @ ''.'' @ field_name f))" .
    qed
    then show ?thesis
      using union by (simp add: emitted_union t_def[symmetric] list_all_iff)
  next
    case scalar
    then show ?thesis by (simp add: emitted_scalar t_def)
  qed
qed

lemma below_longer_neq: "below (p @ s) l \<Longrightarrow> s \<noteq> [] \<Longrightarrow> line_path l \<noteq> p"
  by (auto simp: below_def)

lemma elem_lines_below:
  "list_all (below (path @ ''['' @ str_int (int i) @ '']'')) (elem_lines val path i)"
  using emitted_below[of "path @ ''['' @ str_int (int i) @ '']''"]
  by (cases "getitem val i") (simp_all add: elem_lines_def below_self(3)[of _ "[]", simplified])

lemma elem_lines_not_at_path:
  "l \<in> set (concat (map (elem_lines val path) xs)) \<Longrightarrow> line_path l \<noteq> path"
proof -
  assume "l \<in> set (concat (map (elem_lines val path) xs))"
  then obtain i where "l \<in> set (elem_lines val path i)" by auto
  with elem_lines_below[of path i val]
  have "below (path @ ''['' @ str_int (int i) @ '']'') l" by (simp add: list_all_iff)
  then show ?thesis by (rule below_longer_neq) simp
qed

section \<open>A loop with one unreadable position\<close>

lemma upt_split_at: "k < n \<Longrightarrow> [0..<n] = [0..<k] @ k # [Suc k..<n]"
  by (metis less_imp_le_nat upt_add_eq_append upt_conv_Cons le0 le_add_diff_inverse)

lemma enumerate_split_at:
  "k < length xs \<Longrightarrow>
   enumerate 0 xs = enumerate 0 (take k xs) @ (k, xs ! k) # enumerate (Suc k) (drop (Suc k) xs)"
proof -
  assume k: "k < length xs"
  have "enumerate 0 xs = enumerate 0 (take k xs @ xs ! k # drop (Suc k) xs)"
    using k by (simp add: id_take_nth_drop[symmetric])
  also have "\<dots> = enumerate 0 (take k xs) @ (k, xs ! k) # enumerate (Suc k) (drop (Suc k) xs)"
    using k by (simp add: enumerate_append_eq min_def)
  finally show ?thesis .
qed

lemma elem_lines_inaccessible:
  "getitem val k = None \<Longrightarrow>
   elem_lines val path k = [InaccessibleElement (path @ ''['' @ str_int (int k) @ '']'')]"
  by (simp add: elem_lines_def)

lemma member_lines_inaccessible:
  "getitem val k = None \<Longrightarrow>
   member_lines val path (k, f) = [Inaccessible (path @ ''.'' @ field_name f)]"
  by (simp add: member_lines_def)

lemma emitted_array_gap:
  assumes "code (strip (vtype val)) = TYPE_CODE_ARRAY"
    and "array_len (strip (vtype val)) = Some n"
    and "k < nat n" and "getitem val k = None"
  shows "emitted val path =
           concat (map (elem_lines val path) [0..<k])
           @ [InaccessibleElement (path @ ''['' @ str_int (int k) @ '']'')]
           @ concat (map (elem_lines val path) [Suc k..<nat n])"
  by (simp add: emitted_array[OF assms(1,2)] upt_split_at[OF assms(3)]
        elem_lines_inaccessible[OF assms(4)])

lemma emitted_struct_gap:
  assumes "code (strip (vtype val)) = TYPE_CODE_STRUCT"
    and "k < length (fields_of (strip (vtype val)))"
    and "\<not> artificial (fields_of (strip (vtype val)) ! k)"
    and "getitem val k = None"
  shows "emitted val path =
           concat (map (member_lines val path)
             (filter real_field (enumerate 0 (take k (fields_of (strip (vtype val)))))))
           @ [Inaccessible (path @ ''.'' @ field_name (fields_of (strip (vtype val)) ! k))]
           @ concat (map (member_lines val path)
               (filter real_field
                 (enumerate (Suc k) (drop (Suc k) (fields_of (strip (vtype val)))))))"
  using assms(3)
  by (simp add: emitted_struct[OF assms(1)] enumerate_split_at[OF assms(2)]
        member_lines_inaccessible[OF assms(4)] real_field_def)

lemma emitted_union_gap:
  assumes "code (strip (vtype val)) = TYPE_CODE_UNION"
    and "k < length (fields_of (strip (vtype val)))"
    and "getitem val k = None"
  shows "emitted val path =
           concat (map (member_lines val path)
             (enumerate 0 (take k (fields_of (strip (vtype val))))))
           @ [Inaccessible (path @ ''.'' @ field_name (fields_of (strip (vtype val)) ! k))]
           @ concat (map (member_lines val path)
               (enumerate (Suc k) (drop (Suc k) (fields_of (strip (vtype val))))))"
  by (simp add: emitted_union[OF assms(1)] enumerate_split_at[OF assms(2)]
        member_lines_inaccessible[OF assms(3)])

section \<open>Unions and structs with the same fields\<close>

lemma filter_real_field_all:
  "list_all (\<lambda>f. \<not> artificial f) fs \<Longrightarrow> filter real_field (enumerate n fs) = enumerate n fs"
  by (induction fs arbitrary: n) (simp_all add: real_field_def)

text \<open>
  A union and a struct with the same fields and the same sub-values are walked
  alike as long as no field is artificial.
\<close>

lemma union_as_struct_without_artificial:
  assumes "code (strip (vtype u)) = TYPE_CODE_UNION" "code (strip (vtype s)) = TYPE_CODE_STRUCT"
    and "fields_of (strip (vtype u)) = fields_of (strip (vtype s))" "subs u = subs s"
    and "list_all (\<lambda>f. \<not> artificial f) (fields_of (strip (vtype s)))"
  shows "emitted u path = emitted s path"
proof -
  have "member_lines u path = member_lines s path"
    by (rule ext) (simp add: member_lines_def getitem_def assms(4) split: prod.split)
  then show ?thesis
    by (simp add: emitted_union[OF assms(1)] emitted_struct[OF assms(2)] assms(3)
          filter_real_field_all[OF assms(5)])
qed

section \<open>Hexadecimal digits read back\<close>

lemma hex_digit_table:
  "list_all (\<lambda>k. is_hex_digit (hex_digit k) \<and> hex_digit_value (hex_digit k) = k) [0..15]"
  by code_simp

lemma hex_digit_props:
  "is_hex_digit (hex_digit d) \<and> hex_digit_value (hex_digit d) = d mod 16"
proof -
  have m: "hex_digit d = hex_digit (d mod 16)"
    by (simp add: hex_digit_def)
  have "d mod 16 \<in> set [0..15]" by simp
  with hex_digit_table
  have "is_hex_digit (hex_digit (d mod 16)) \<and> hex_digit_value (hex_digit (d mod 16)) = d mod 16"
    unfolding list_all_iff by blast
  with m show ?thesis by simp
qed

lemma hex_value_snoc: "hex_value (s @ [c]) = 16 * hex_value s + hex_digit_value c"
  by (simp add: hex_value_def)

lemma hex_digits_all_hex: "list_all is_hex_digit (hex_digits n)"
proof (induction n rule: hex_digits.induct)
  case (1 n)
  show ?case
  proof (cases "n < 16")
    case True
    then show ?thesis by (simp add: hex_digits.simps[of n] hex_digit_props)
  next
    case False
    with 1 show ?thesis by (simp add: hex_digits.simps[of n] hex_digit_props)
  qed
qed

lemma hex_value_hex_digits: "0 \<le> n \<Longrightarrow> hex_value (hex_digits n) = n"
proof (induction n rule: hex_digits.induct)
  case (1 n)
  show ?case
  proof (cases "n < 16")
    case True
    with 1(2) have "n mod 16 = n" by simp
    with True show ?thesis
      using hex_value_snoc[of "[]" "hex_digit n"]
      by (simp add: hex_digits.simps[of n] hex_digit_props hex_value_def)
  next
    case False
    with 1 have "hex_value (hex_digits (n div 16)) = n div 16" by simp
    with False show ?thesis
      by (simp add: hex_digits.simps[of n] hex_value_snoc hex_digit_props)
  qed
qed

section \<open>The two walks agree when no exception leaves\<close>

lemma typename_x_no_faults: "typename_x no_faults t = Inr (typename t)"
  by (simp add: typename_x_def typename_def no_faults_def Let_def split: option.split)

lemma fmt_addr_x_no_faults: "fmt_addr_x no_faults v = Inr (fmt_addr v)"
  by (simp add: fmt_addr_x_def fmt_addr_def no_faults_def split: option.split)

lemma array_len_x_no_faults: "array_len_x no_faults t = array_len t"
  by (simp add: array_len_x_def array_len_def no_faults_def Let_def split: option.split)

lemma report_pointer_x_no_faults:
  "report_pointer_x no_faults pval ptype path st = (None, report_pointer pval ptype path st)"
  by (simp add: report_pointer_x_def report_pointer_def typename_x_no_faults
        fmt_addr_x_no_faults Let_def)

lemma raises_no_faults:
  "\<not> target_raises no_faults t" "\<not> fields_raises no_faults t"
  by (simp_all add: no_faults_def)

lemma fold_never_raised:
  "(\<And>x s. x \<in> set xs \<Longrightarrow> g x (None, s) = (None, f x s)) \<Longrightarrow>
   fold g xs (None, st) = (None, fold f xs st)"
  by (induction xs arbitrary: st) simp_all

lemma walk_value_x_no_faults:
  "walk_value_x no_faults val path st = (None, walk_value val path st)"
proof (induction val path st rule: walk_value.induct)
  case (1 val path st)
  define t where "t = strip (vtype val)"
  consider (ptr) "is_ptr t"
    | (unknown) "\<not> is_ptr t" "is_array t" "array_len t = None"
    | (array) n where "\<not> is_ptr t" "is_array t" "array_len t = Some n"
    | (struct) "\<not> is_ptr t" "\<not> is_array t" "is_struct t"
    | (union) "\<not> is_ptr t" "\<not> is_array t" "\<not> is_struct t" "is_union t"
    | (scalar) "\<not> is_ptr t" "\<not> is_array t" "\<not> is_struct t" "\<not> is_union t"
    by (cases "array_len t") blast+
  then show ?case
  proof cases
    case ptr
    then show ?thesis
      by (simp add: walk_value_x.simps[of _ val] walk_value.simps[of val] t_def[symmetric]
            report_pointer_x_no_faults)
  next
    case unknown
    then show ?thesis
      by (simp add: walk_value_x.simps[of _ val] walk_value.simps[of val] t_def[symmetric]
            array_len_x_no_faults raises_no_faults typename_x_no_faults)
  next
    case array
    have "fold (\<lambda>i r.
                 case r of
                   (Some e, st') \<Rightarrow> r
                 | (None, st') \<Rightarrow>
                     (case getitem val i of
                        None \<Rightarrow>
                          (None, gdb_write
                             (InaccessibleElement (path @ ''['' @ str_int (int i) @ '']'')) st')
                      | Some elem \<Rightarrow>
                          walk_value_x no_faults elem (path @ ''['' @ str_int (int i) @ '']'') st'))
              (py_range n) (None, st)
          = (None, fold (\<lambda>i st'.
                     case getitem val i of
                       None \<Rightarrow> gdb_write (InaccessibleElement (path @ ''['' @ str_int (int i) @ '']'')) st'
                     | Some elem \<Rightarrow> walk_value elem (path @ ''['' @ str_int (int i) @ '']'') st')
                  (py_range n) st)"
    proof (rule fold_never_raised)
      fix i s assume i: "i \<in> set (py_range n)"
      show "(case (None, s) of
               (Some e, st') \<Rightarrow> (None, s)
             | (None, st') \<Rightarrow>
                 (case getitem val i of
                    None \<Rightarrow>
                      (None, gdb_write
                         (InaccessibleElement (path @ ''['' @ str_int (int i) @ '']'')) st')
                  | Some elem \<Rightarrow>
                      walk_value_x no_faults elem (path @ ''['' @ str_int (int i) @ '']'') st'))
            = (None, case getitem val i of
                       None \<Rightarrow> gdb_write (InaccessibleElement (path @ ''['' @ str_int (int i) @ '']'')) s
                     | Some elem \<Rightarrow> walk_value elem (path @ ''['' @ str_int (int i) @ '']'') s)"
        using "1.IH"(1)[OF t_def array i]
        by (cases "getitem val i") simp_all
    qed
    with array show ?thesis
      by (simp add: walk_value_x.simps[of _ val] walk_value.simps[of val] t_def[symmetric]
            array_len_x_no_faults)
  next
    case struct
    have "fold (\<lambda>(i, f) r.
                  case r of
                    (Some e, st') \<Rightarrow> r
                  | (None, st') \<Rightarrow>
                      if artificial f then (None, st')
                      else
                        (let fname = field_name f;
                             ft = strip (ftype f);
                             full = path @ ''.'' @ fname
                         in case getitem val i of
                              None \<Rightarrow> (None, gdb_write (Inaccessible full) st')
                            | Some fval \<Rightarrow>
                                if is_ptr ft then report_pointer_x no_faults fval ft full st'
                                else if is_array ft \<or> is_struct ft \<or> is_union ft
                                then walk_value_x no_faults fval full st'
                                else (None, st')))
               (enumerate 0 (fields_of t)) (None, st)
          = (None, fold (\<lambda>(i, f) st'.
                if artificial f then st'
                else
                  (let fname = field_name f;
                       ft = strip (ftype f);
                       full = path @ ''.'' @ fname
                   in case getitem val i of
                        None \<Rightarrow> gdb_write (Inaccessible full) st'
                      | Some fval \<Rightarrow>
                          if is_ptr ft then report_pointer fval ft full st'
                          else if is_array ft \<or> is_struct ft \<or> is_union ft
                          then walk_value fval full st'
                          else st'))
             (enumerate 0 (fields_of t)) st)"
    proof (rule fold_never_raised)
      fix x :: "nat \<times> gdb_field" and s :: state
      assume x: "x \<in> set (enumerate 0 (fields_of t))"
      obtain i f where xif: "x = (i, f)" by (cases x)
      have rec: "walk_value_x no_faults fval (path @ ''.'' @ field_name f) s
                 = (None, walk_value fval (path @ ''.'' @ field_name f) s)"
        if "\<not> artificial f" "getitem val i = Some fval" "\<not> is_ptr (strip (ftype f))"
          "is_array (strip (ftype f)) \<or> is_struct (strip (ftype f)) \<or> is_union (strip (ftype f))"
        for fval
        using "1.IH"(2)[OF t_def struct x xif[symmetric] that(1) refl refl refl that(2,3,4)] .
      show "(case x of (i, f) \<Rightarrow> \<lambda>r.
                  case r of
                    (Some e, st') \<Rightarrow> r
                  | (None, st') \<Rightarrow>
                      if artificial f then (None, st')
                      else
                        (let fname = field_name f;
                             ft = strip (ftype f);
                             full = path @ ''.'' @ fname
                         in case getitem val i of
                              None \<Rightarrow> (None, gdb_write (Inaccessible full) st')
                            | Some fval \<Rightarrow>
                                if is_ptr ft then report_pointer_x no_faults fval ft full st'
                                else if is_array ft \<or> is_struct ft \<or> is_union ft
                                then walk_value_x no_faults fval full st'
                                else (None, st'))) (None, s)
          = (None, (case x of (i, f) \<Rightarrow> \<lambda>st'.
                if artificial f then st'
                else
                  (let fname = field_name f;
                       ft = strip (ftype f);
                       full = path @ ''.'' @ fname
                   in case getitem val i of
                        None \<Rightarrow> gdb_write (Inaccessible full) st'
                      | Some fval \<Rightarrow>
                          if is_ptr ft then report_pointer fval ft full st'
                          else if is_array ft \<or> is_struct ft \<or> is_union ft
                          then walk_value fval full st'
                          else st')) s)"
        using rec
        by (cases "getitem val i")
           (auto simp add: xif Let_def report_pointer_x_no_faults)
    qed
    with struct show ?thesis
      by (simp add: walk_value_x.simps[of _ val] walk_value.simps[of val] t_def[symmetric]
            raises_no_faults)
  next
    case union
    have "fold (\<lambda>(i, f) r.
                  case r of
                    (Some e, st') \<Rightarrow> r
                  | (None, st') \<Rightarrow>
                      (let fname = field_name f;
                           ft = strip (ftype f);
                           full = path @ ''.'' @ fname
                       in case getitem val i of
                            None \<Rightarrow> (None, gdb_write (Inaccessible full) st')
                          | Some fval \<Rightarrow>
                              if is_ptr ft then report_pointer_x no_faults fval ft full st'
                              else if is_array ft \<or> is_struct ft \<or> is_union ft
                              then walk_value_x no_faults fval full st'
                              else (None, st')))
               (enumerate 0 (fields_of t)) (None, st)
          = (None, fold (\<lambda>(i, f) st'.
                  (let fname = field_name f;
                       ft = strip (ftype f);
                       full = path @ ''.'' @ fname
                   in case getitem val i of
                        None \<Rightarrow> gdb_write (Inaccessible full) st'
                      | Some fval \<Rightarrow>
                          if is_ptr ft then report_pointer fval ft full st'
                          else if is_array ft \<or> is_struct ft \<or> is_union ft
                          then walk_value fval full st'
                          else st'))
             (enumerate 0 (fields_of t)) st)"
    proof (rule fold_never_raised)
      fix x :: "nat \<times> gdb_field" and s :: state
      assume x: "x \<in> set (enumerate 0 (fields_of t))"
      obtain i f where xif: "x = (i, f)" by (cases x)
      have rec: "walk_value_x no_faults fval (path @ ''.'' @ field_name f) s
                 = (None, walk_value fval (path @ ''.'' @ field_name f) s)"
        if "getitem val i = Some fval" "\<not> is_ptr (strip (ftype f))"
          "is_array (strip (ftype f)) \<or> is_struct (strip (ftype f)) \<or> is_union (strip (ftype f))"
        for fval
        using "1.IH"(3)[OF t_def union x xif[symmetric] refl refl refl that] .
      show "(case x of (i, f) \<Rightarrow> \<lambda>r.
                  case r of
                    (Some e, st') \<Rightarrow> r
                  | (None, st') \<Rightarrow>
                      (let fname = field_name f;
                           ft = strip (ftype f);
                           full = path @ ''.'' @ fname
                       in case getitem val i of
                            None \<Rightarrow> (None, gdb_write (Inaccessible full) st')
                          | Some fval \<Rightarrow>
                              if is_ptr ft then report_pointer_x no_faults fval ft full st'
                              else if is_array ft \<or> is_struct ft \<or> is_union ft
                              then walk_value_x no_faults fval full st'
                              else (None, st'))) (None, s)
          = (None, (case x of (i, f) \<Rightarrow> \<lambda>st'.
                  (let fname = field_name f;
                       ft = strip (ftype f);
                       full = path @ ''.'' @ fname
                   in case getitem val i of
                        None \<Rightarrow> gdb_write (Inaccessible full) st'
                      | Some fval \<Rightarrow>
                          if is_ptr ft then report_pointer fval ft full st'
                          else if is_array ft \<or> is_struct ft \<or> is_union ft
                          then walk_value fval full st'
                          else st')) s)"
        using rec
        by (cases "getitem val i")
           (auto simp add: xif Let_def report_pointer_x_no_faults)
    qed
    with union show ?thesis
      by (simp add: walk_value_x.simps[of _ val] walk_value.simps[of val] t_def[symmetric]
            raises_no_faults)
  next
    case scalar
    then show ?thesis
      by (simp add: walk_value_x.simps[of _ val] walk_value.simps[of val] t_def[symmetric])
  qed
qed

lemma run_x_no_faults: "run_x no_faults val root_name st = (None, run val root_name st)"
  by (simp add: run_x_def run_def walk_value_x_no_faults Let_def)

lemma invoke_x_no_faults:
  "invoke_x no_faults string_to_argv parse_and_eval arg from_tty con =
     (map_option Rejected (fst (invoke string_to_argv parse_and_eval arg from_tty con)),
      snd (invoke string_to_argv parse_and_eval arg from_tty con))"
  by (simp add: invoke_x_def invoke_def run_x_no_faults Let_def split: sum.split)


lemma typename_x_Inr: "typename_x F t = Inr tn \<Longrightarrow> tn = typename t"
  by (auto simp: typename_x_def typename_def Let_def split: option.splits if_splits)

lemma fmt_addr_x_Inr: "fmt_addr_x F v = Inr a \<Longrightarrow> a = fmt_addr v"
  by (auto simp: fmt_addr_x_def fmt_addr_def split: option.splits if_splits)

lemma array_len_x_eq: "\<not> (range_of (strip t) = None \<and> target_raises F (strip t)) \<Longrightarrow> array_len_x F t = array_len t"
  by (auto simp: array_len_x_def array_len_def Let_def split: option.splits)

lemma array_len_x_raises: "range_of (strip t) = None \<Longrightarrow> target_raises F (strip t) \<Longrightarrow> array_len_x F t = None"
  by (simp add: array_len_x_def Let_def)

lemma report_pointer_x_done:
  "report_pointer_x F pval ptype path st = (None, st') \<Longrightarrow> st' = report_pointer pval ptype path st"
  by (auto simp: report_pointer_x_def report_pointer_def Let_def
        dest!: typename_x_Inr fmt_addr_x_Inr split: sum.splits)

lemma fold_raised_stays:
  "(\<And>x r. x \<in> set xs \<Longrightarrow> fst r \<noteq> None \<Longrightarrow> g x r = r) \<Longrightarrow> fst r \<noteq> None \<Longrightarrow> fold g xs r = r"
  by (induction xs) simp_all

lemma fold_done:
  assumes stay: "\<And>x r. x \<in> set xs \<Longrightarrow> fst r \<noteq> None \<Longrightarrow> g x r = r"
    and step: "\<And>x s s'. x \<in> set xs \<Longrightarrow> g x (None, s) = (None, s') \<Longrightarrow> s' = f x s"
    and fin: "fold g xs (None, st) = (None, st')"
  shows "st' = fold f xs st"
  using assms
proof (induction xs arbitrary: st)
  case Nil
  then show ?case by simp
next
  case (Cons x xs)
  obtain e s1 where r: "g x (None, st) = (e, s1)" by (cases "g x (None, st)")
  show ?case
  proof (cases e)
    case None
    with r Cons.prems(2)[of x st s1] have s1: "s1 = f x st" by simp
    from Cons.prems(3) r None have "fold g xs (None, s1) = (None, st')" by simp
    from Cons.IH[OF _ _ this] Cons.prems(1,2) have "st' = fold f xs s1" by simp
    with s1 show ?thesis by simp
  next
    case (Some a)
    have "fold g xs (e, s1) = (e, s1)"
      using Cons.prems(1) Some by (intro fold_raised_stays) simp_all
    with Cons.prems(3) r Some show ?thesis by simp
  qed
qed



lemma raised_case_stays:
  "fst r \<noteq> None \<Longrightarrow> (case r of (Some e, s) \<Rightarrow> r | (None, s) \<Rightarrow> h s) = r"
  by (cases r; cases "fst r") auto

lemma member_step_done:
  assumes rec: "\<And>fval s'. getitem val i = Some fval \<Longrightarrow> \<not> is_ptr ft \<Longrightarrow>
                  is_array ft \<or> is_struct ft \<or> is_union ft \<Longrightarrow>
                  walk_value_x F fval full s = (None, s') \<Longrightarrow> s' = walk_value fval full s"
    and fin: "(case getitem val i of
                 None \<Rightarrow> (None, gdb_write (Inaccessible full) s)
               | Some fval \<Rightarrow>
                   if is_ptr ft then report_pointer_x F fval ft full s
                   else if is_array ft \<or> is_struct ft \<or> is_union ft
                   then walk_value_x F fval full s
                   else (None, s)) = (None, s')"
  shows "s' = (case getitem val i of
                 None \<Rightarrow> gdb_write (Inaccessible full) s
               | Some fval \<Rightarrow>
                   if is_ptr ft then report_pointer fval ft full s
                   else if is_array ft \<or> is_struct ft \<or> is_union ft
                   then walk_value fval full s
                   else s)"
proof (cases "getitem val i")
  case None
  with fin show ?thesis by simp
next
  case (Some fval)
  show ?thesis
  proof (cases "is_ptr ft")
    case True
    with fin Some show ?thesis by (simp add: report_pointer_x_done)
  next
    case np: False
    show ?thesis
    proof (cases "is_array ft \<or> is_struct ft \<or> is_union ft")
      case True
      with fin Some np have "walk_value_x F fval full s = (None, s')" by simp
      from rec[OF Some np True this] Some np True show ?thesis by simp
    next
      case False
      with fin Some np show ?thesis by simp
    qed
  qed
qed

lemma walk_value_x_done:
  "walk_value_x F val path st = (None, st') \<Longrightarrow> st' = walk_value val path st"
proof (induction F val path st arbitrary: st' rule: walk_value_x.induct)
  case (1 F val path st)
  define t where "t = strip (vtype val)"
  have tt: "strip t = t" by (simp add: t_def strip_strip)
  note fin = "1.prems"
  consider (ptr) "is_ptr t"
    | (array) "\<not> is_ptr t" "is_array t"
    | (struct) "\<not> is_ptr t" "\<not> is_array t" "is_struct t"
    | (union) "\<not> is_ptr t" "\<not> is_array t" "\<not> is_struct t" "is_union t"
    | (scalar) "\<not> is_ptr t" "\<not> is_array t" "\<not> is_struct t" "\<not> is_union t"
    by blast
  then show ?case
  proof cases
    case ptr
    with fin show ?thesis
      by (simp add: walk_value_x.simps[of _ val] walk_value.simps[of val] t_def[symmetric]
            report_pointer_x_done)
  next
    case array
    show ?thesis
    proof (cases "range_of t = None \<and> target_raises F t")
      case True
      then have "array_len_x F t = None" by (simp add: array_len_x_raises tt)
      with fin array True show ?thesis
        by (simp add: walk_value_x.simps[of _ val] t_def[symmetric])
    next
      case False
      then have len: "array_len_x F t = array_len t" by (simp add: array_len_x_eq tt)
      show ?thesis
      proof (cases "array_len t")
        case None
        from None len fin array obtain tn where
          "typename_x F (target t) = Inr tn" "st' = gdb_write (UnknownLength path tn) st"
          by (auto simp: walk_value_x.simps[of _ val] t_def[symmetric] split: if_splits sum.splits)
        with None array show ?thesis
          by (auto simp: walk_value.simps[of val] t_def[symmetric] dest!: typename_x_Inr)
      next
        case (Some n)
        let ?g = "\<lambda>i r. case r of
                       (Some e, st') \<Rightarrow> r
                     | (None, st') \<Rightarrow>
                         (case getitem val i of
                            None \<Rightarrow>
                              (None, gdb_write
                                 (InaccessibleElement (path @ ''['' @ str_int (int i) @ '']'')) st')
                          | Some elem \<Rightarrow>
                              walk_value_x F elem (path @ ''['' @ str_int (int i) @ '']'') st')"
        let ?f = "\<lambda>i st'.
                     case getitem val i of
                       None \<Rightarrow> gdb_write (InaccessibleElement (path @ ''['' @ str_int (int i) @ '']'')) st'
                     | Some elem \<Rightarrow> walk_value elem (path @ ''['' @ str_int (int i) @ '']'') st'"
        from fin array Some len have f: "fold ?g (py_range n) (None, st) = (None, st')"
          by (simp add: walk_value_x.simps[of _ val] t_def[symmetric])
        have "st' = fold ?f (py_range n) st"
        proof (rule fold_done[where g = ?g, OF _ _ f])
          fix x :: nat and r :: "uncaught option \<times> state"
          assume "fst r \<noteq> None"
          then show "?g x r = r" by (rule raised_case_stays)
        next
          fix i :: nat and s s' :: state
          assume i: "i \<in> set (py_range n)" and g: "?g i (None, s) = (None, s')"
          show "s' = ?f i s"
          proof (cases "getitem val i")
            case None
            with g show ?thesis by simp
          next
            case (Some elem)
            with g have "walk_value_x F elem (path @ ''['' @ str_int (int i) @ '']'') s = (None, s')"
              by simp
            from "1.IH"(1)[OF t_def array _ i refl refl Some this] len \<open>array_len t = Some n\<close>
            show ?thesis by (simp add: Some)
          qed
        qed
        with array Some show ?thesis
          by (simp add: walk_value.simps[of val] t_def[symmetric])
      qed
    qed
  next
    case struct
    show ?thesis
    proof (cases "fields_raises F t")
      case True
      with fin struct show ?thesis
        by (simp add: walk_value_x.simps[of _ val] t_def[symmetric])
    next
      case nf: False
      let ?g = "\<lambda>(i, f) r.
                  case r of
                    (Some e, st') \<Rightarrow> r
                  | (None, st') \<Rightarrow>
                      if artificial f then (None, st')
                      else
                        (let fname = field_name f;
                             ft = strip (ftype f);
                             full = path @ ''.'' @ fname
                         in case getitem val i of
                              None \<Rightarrow> (None, gdb_write (Inaccessible full) st')
                            | Some fval \<Rightarrow>
                                if is_ptr ft then report_pointer_x F fval ft full st'
                                else if is_array ft \<or> is_struct ft \<or> is_union ft
                                then walk_value_x F fval full st'
                                else (None, st'))"
      let ?f = "\<lambda>(i, f) st'.
                if artificial f then st'
                else
                  (let fname = field_name f;
                       ft = strip (ftype f);
                       full = path @ ''.'' @ fname
                   in case getitem val i of
                        None \<Rightarrow> gdb_write (Inaccessible full) st'
                      | Some fval \<Rightarrow>
                          if is_ptr ft then report_pointer fval ft full st'
                          else if is_array ft \<or> is_struct ft \<or> is_union ft
                          then walk_value fval full st'
                          else st')"
      from fin struct nf have f: "fold ?g (enumerate 0 (fields_of t)) (None, st) = (None, st')"
        by (simp add: walk_value_x.simps[of _ val] t_def[symmetric])
      have "st' = fold ?f (enumerate 0 (fields_of t)) st"
      proof (rule fold_done[where g = ?g, OF _ _ f])
        fix x :: "nat \<times> gdb_field" and r :: "uncaught option \<times> state"
        assume "fst r \<noteq> None"
        then show "?g x r = r" by (cases x) (simp add: raised_case_stays)
      next
        fix x :: "nat \<times> gdb_field" and s s' :: state
        assume x: "x \<in> set (enumerate 0 (fields_of t))" and g: "?g x (None, s) = (None, s')"
        obtain i f where xif: "x = (i, f)" by (cases x)
        show "s' = ?f x s"
        proof (cases "artificial f")
          case True
          with g show ?thesis by (simp add: xif)
        next
          case na: False
          have "s' = (case getitem val i of
                 None \<Rightarrow> gdb_write (Inaccessible (path @ ''.'' @ field_name f)) s
               | Some fval \<Rightarrow>
                   if is_ptr (strip (ftype f)) then report_pointer fval (strip (ftype f)) (path @ ''.'' @ field_name f) s
                   else if is_array (strip (ftype f)) \<or> is_struct (strip (ftype f)) \<or> is_union (strip (ftype f))
                   then walk_value fval (path @ ''.'' @ field_name f) s
                   else s)"
          proof (rule member_step_done[where F = F])
            fix fval s''
            assume a: "getitem val i = Some fval" "\<not> is_ptr (strip (ftype f))"
              "is_array (strip (ftype f)) \<or> is_struct (strip (ftype f)) \<or> is_union (strip (ftype f))"
              "walk_value_x F fval (path @ ''.'' @ field_name f) s = (None, s'')"
            from "1.IH"(2)[OF t_def struct nf x xif[symmetric] refl refl na refl refl refl a]
            show "s'' = walk_value fval (path @ ''.'' @ field_name f) s" .
          next
            from g na show "(case getitem val i of
                 None \<Rightarrow> (None, gdb_write (Inaccessible (path @ ''.'' @ field_name f)) s)
               | Some fval \<Rightarrow>
                   if is_ptr (strip (ftype f)) then report_pointer_x F fval (strip (ftype f)) (path @ ''.'' @ field_name f) s
                   else if is_array (strip (ftype f)) \<or> is_struct (strip (ftype f)) \<or> is_union (strip (ftype f))
                   then walk_value_x F fval (path @ ''.'' @ field_name f) s
                   else (None, s)) = (None, s')"
              unfolding xif by (simp only: Let_def prod.case if_False option.case)
          qed
          with na show ?thesis unfolding xif by (simp only: Let_def prod.case if_False)
        qed
      qed
      with struct show ?thesis
        by (simp add: walk_value.simps[of val] t_def[symmetric])
    qed
  next
    case union
    show ?thesis
    proof (cases "fields_raises F t")
      case True
      with fin union show ?thesis
        by (simp add: walk_value_x.simps[of _ val] t_def[symmetric])
    next
      case nf: False
      let ?g = "\<lambda>(i, f) r.
                  case r of
                    (Some e, st') \<Rightarrow> r
                  | (None, st') \<Rightarrow>
                      (let fname = field_name f;
                           ft = strip (ftype f);
                           full = path @ ''.'' @ fname
                       in case getitem val i of
                            None \<Rightarrow> (None, gdb_write (Inaccessible full) st')
                          | Some fval \<Rightarrow>
                              if is_ptr ft then report_pointer_x F fval ft full st'
                              else if is_array ft \<or> is_struct ft \<or> is_union ft
                              then walk_value_x F fval full st'
                              else (None, st'))"
      let ?f = "\<lambda>(i, f) st'.
                  (let fname = field_name f;
                       ft = strip (ftype f);
                       full = path @ ''.'' @ fname
                   in case getitem val i of
                        None \<Rightarrow> gdb_write (Inaccessible full) st'
                      | Some fval \<Rightarrow>
                          if is_ptr ft then report_pointer fval ft full st'
                          else if is_array ft \<or> is_struct ft \<or> is_union ft
                          then walk_value fval full st'
                          else st')"
      from fin union nf have f: "fold ?g (enumerate 0 (fields_of t)) (None, st) = (None, st')"
        by (simp add: walk_value_x.simps[of _ val] t_def[symmetric])
      have "st' = fold ?f (enumerate 0 (fields_of t)) st"
      proof (rule fold_done[where g = ?g, OF _ _ f])
        fix x :: "nat \<times> gdb_field" and r :: "uncaught option \<times> state"
        assume "fst r \<noteq> None"
        then show "?g x r = r" by (cases x) (simp add: raised_case_stays)
      next
        fix x :: "nat \<times> gdb_field" and s s' :: state
        assume x: "x \<in> set (enumerate 0 (fields_of t))" and g: "?g x (None, s) = (None, s')"
        obtain i f where xif: "x = (i, f)" by (cases x)
        have "s' = (case getitem val i of
               None \<Rightarrow> gdb_write (Inaccessible (path @ ''.'' @ field_name f)) s
             | Some fval \<Rightarrow>
                 if is_ptr (strip (ftype f)) then report_pointer fval (strip (ftype f)) (path @ ''.'' @ field_name f) s
                 else if is_array (strip (ftype f)) \<or> is_struct (strip (ftype f)) \<or> is_union (strip (ftype f))
                 then walk_value fval (path @ ''.'' @ field_name f) s
                 else s)"
        proof (rule member_step_done[where F = F])
          fix fval s''
          assume a: "getitem val i = Some fval" "\<not> is_ptr (strip (ftype f))"
            "is_array (strip (ftype f)) \<or> is_struct (strip (ftype f)) \<or> is_union (strip (ftype f))"
            "walk_value_x F fval (path @ ''.'' @ field_name f) s = (None, s'')"
          from "1.IH"(3)[OF t_def union nf x xif[symmetric] refl refl refl refl refl a]
          show "s'' = walk_value fval (path @ ''.'' @ field_name f) s" .
        next
          from g show "(case getitem val i of
               None \<Rightarrow> (None, gdb_write (Inaccessible (path @ ''.'' @ field_name f)) s)
             | Some fval \<Rightarrow>
                 if is_ptr (strip (ftype f)) then report_pointer_x F fval (strip (ftype f)) (path @ ''.'' @ field_name f) s
                 else if is_array (strip (ftype f)) \<or> is_struct (strip (ftype f)) \<or> is_union (strip (ftype f))
                 then walk_value_x F fval (path @ ''.'' @ field_name f) s
                 else (None, s)) = (None, s')"
            unfolding xif by (simp only: Let_def prod.case option.case)
        qed
        then show "s' = ?f x s" unfolding xif by (simp only: Let_def prod.case)
      qed
      with union show ?thesis
        by (simp add: walk_value.simps[of val] t_def[symmetric])
    qed
  next
    case scalar
    with fin show ?thesis
      by (simp add: walk_value_x.simps[of _ val] walk_value.simps[of val] t_def[symmetric])
  qed
qed

lemma invoke_x_rejects:
  "(string_to_argv arg = Inl e \<longrightarrow>
      invoke_x F string_to_argv parse_and_eval arg from_tty con =
        (Some (Rejected (GdbError e)), con))
   \<and> (string_to_argv arg = Inr [] \<longrightarrow>
      invoke_x F string_to_argv parse_and_eval arg from_tty con =
        (Some (Rejected (GdbError ''usage: structptrs EXPR'')), con))
   \<and> (string_to_argv arg = Inr argv \<longrightarrow> argv \<noteq> [] \<longrightarrow>
      parse_and_eval (join_space argv) = Inl e \<longrightarrow>
      invoke_x F string_to_argv parse_and_eval arg from_tty con =
        (Some (Rejected (GdbError (''failed to evaluate EXPR: '' @ e))), con))"
  by (simp add: invoke_x_def Let_def)

lemma run_x_done:
  "run_x F val root_name st = (None, st') \<Longrightarrow> st' = run val root_name st"
  by (auto simp: run_x_def run_def Let_def split: prod.splits option.splits
        dest!: walk_value_x_done)

lemma invoke_x_done:
  assumes "string_to_argv arg = Inr argv" "argv \<noteq> []"
    "parse_and_eval (join_space argv) = Inr val"
    "invoke_x F string_to_argv parse_and_eval arg from_tty con = (None, con')"
  shows "con' = con @ emitted val (join_space argv)
                  @ [Total (report_count (emitted val (join_space argv)))]"
proof -
  from assms obtain st where
    "run_x F val (join_space argv) \<lparr>count = 0, console = con\<rparr> = (None, st)" "con' = console st"
    by (auto simp: invoke_x_def Let_def split: prod.splits option.splits)
  then show ?thesis
    by (auto dest!: run_x_done simp: run_emit)
qed

text \<open>
  The calls \<^verbatim>\<open>t.target()\<close> of the unknown-length line and \<^verbatim>\<open>t.fields()\<close> leave the
  command in the same way when they raise; with no call raising, the same
  array gets its diagnostic line and a total.
\<close>

lemma other_unguarded_failures_escape:
  "invoke_x tail_faults demo_argv torn_eval ''tail'' False [] = (Some (Escaped TargetRaised), [])
   \<and> invoke_x fields_faults demo_argv torn_eval ''s'' False [] = (Some (Escaped FieldsRaised), [])
   \<and> invoke_x no_faults demo_argv torn_eval ''tail'' False [] =
       (None, [UnknownLength ''tail'' ''char *'', Total 0])"
  by code_simp

section \<open>The scenario of the specification\<close>

text \<open>
  \<^verbatim>\<open>struct demo { int a; char *name; int arr[2]; }\<close> with \<^verbatim>\<open>name\<close> at \<^verbatim>\<open>0x1000\<close>: one
  Report Record and a total of one, whatever the count was before.
\<close>

lemma scenario_demo_struct:
  "map render (console (run demo_val ''<root>'' \<lparr>count = 5, console = []\<rparr>)) =
     [''<root>.name : char * = 0x1000'' @ nl, nl @ ''Total pointer fields: 1'' @ nl]"
  by code_simp

section \<open>The claims\<close>

text \<open>
  C1. For every root value, path and starting state, \<^verbatim>\<open>run\<close> writes the lines of
  the walk followed by one total line, and the number in the total line (the
  value of \<^verbatim>\<open>self.count\<close> at the end) is exactly the number of Report Records
  among the lines of the walk. The walk itself, from any state, appends its
  lines and adds to the count the number of Report Records among them; so the
  diagnostic lines (inaccessible element, inaccessible field, unknown-length
  array), which are not Report Records, never change the count. The walk
  writes no total line of its own.
\<close>

theorem run_total_equals_report_records:
  "console (run val root_name st) =
     console st @ emitted val root_name
       @ [Total (int (length (filter is_report (emitted val root_name))))]
   \<and> count (run val root_name st) = int (length (filter is_report (emitted val root_name)))
   \<and> console (walk_value val root_name st) = console st @ emitted val root_name
   \<and> count (walk_value val root_name st) =
       count st + int (length (filter is_report (emitted val root_name)))
   \<and> filter is_total (emitted val root_name) = []"
proof -
  have "filter is_total (emitted val root_name) = []"
    using emitted_below[of root_name val] by (auto simp: filter_empty_conv list_all_iff below_def)
  then show ?thesis
    by (simp add: run_emit walk_value_emit emit_def report_count_def)
qed



text \<open>
  C3. The union loop has no test of \<^verbatim>\<open>artificial\<close>, the struct loop has one. A
  union whose first member is artificial has that member reported and counted;
  a struct with the same fields has it skipped.
\<close>

theorem union_reports_artificial_member:
  "artificial (fields_of (strip (vtype art_union_val)) ! 0)
   \<and> fields_of (strip (vtype art_union_val)) = fields_of (strip (vtype art_struct_val))
   \<and> console (run art_union_val ''u'' \<lparr>count = 0, console = []\<rparr>) =
       [Report ''u._vptr'' ''void *'' ''0x5000'', Report ''u.p'' ''char *'' ''0x5000'', Total 2]
   \<and> console (run art_struct_val ''s'' \<lparr>count = 0, console = []\<rparr>) =
       [Report ''s.p'' ''char *'' ''0x1000'', Total 1]"
  by code_simp



text \<open>
  C5. A sub-value that cannot be read costs one diagnostic line and nothing
  else. If \<^verbatim>\<open>val[k]\<close> raises for an index \<open>k\<close> of an array of known length, the
  walk writes the lines of the elements before \<open>k\<close>, then the line
  \<^verbatim>\<open><path>[k] : <inaccessible element>\<close>, then the lines of the elements after
  \<open>k\<close>; the count grows by the Report Records of the other elements only. The
  same holds for a field of a struct that is not artificial (an artificial
  one is skipped before it is read) and for a member of a union, with the
  line \<^verbatim>\<open><path>.<name> : <inaccessible>\<close>. The lines of each sibling are what
  the body of the loop writes for it alone.
\<close>

theorem inaccessible_subvalue_is_local:
  "(code (strip (vtype val)) = TYPE_CODE_ARRAY \<longrightarrow>
    array_len (strip (vtype val)) = Some n \<longrightarrow> k < nat n \<longrightarrow> getitem val k = None \<longrightarrow>
      console (walk_value val path st) =
        console st
        @ concat (map (elem_lines val path) [0..<k])
        @ [InaccessibleElement (path @ ''['' @ str_int (int k) @ '']'')]
        @ concat (map (elem_lines val path) [Suc k..<nat n])
      \<and> count (walk_value val path st) =
        count st + report_count (concat (map (elem_lines val path) [0..<k]))
          + report_count (concat (map (elem_lines val path) [Suc k..<nat n])))
   \<and> (code (strip (vtype val)) = TYPE_CODE_STRUCT \<longrightarrow>
    k < length (fields_of (strip (vtype val))) \<longrightarrow>
    \<not> artificial (fields_of (strip (vtype val)) ! k) \<longrightarrow> getitem val k = None \<longrightarrow>
      console (walk_value val path st) =
        console st
        @ concat (map (member_lines val path)
            (filter real_field (enumerate 0 (take k (fields_of (strip (vtype val)))))))
        @ [Inaccessible (path @ ''.'' @ field_name (fields_of (strip (vtype val)) ! k))]
        @ concat (map (member_lines val path)
            (filter real_field
              (enumerate (Suc k) (drop (Suc k) (fields_of (strip (vtype val)))))))
      \<and> count (walk_value val path st) =
        count st
          + report_count (concat (map (member_lines val path)
              (filter real_field (enumerate 0 (take k (fields_of (strip (vtype val))))))))
          + report_count (concat (map (member_lines val path)
              (filter real_field
                (enumerate (Suc k) (drop (Suc k) (fields_of (strip (vtype val)))))))))
   \<and> (code (strip (vtype val)) = TYPE_CODE_UNION \<longrightarrow>
    k < length (fields_of (strip (vtype val))) \<longrightarrow> getitem val k = None \<longrightarrow>
      console (walk_value val path st) =
        console st
        @ concat (map (member_lines val path)
            (enumerate 0 (take k (fields_of (strip (vtype val))))))
        @ [Inaccessible (path @ ''.'' @ field_name (fields_of (strip (vtype val)) ! k))]
        @ concat (map (member_lines val path)
            (enumerate (Suc k) (drop (Suc k) (fields_of (strip (vtype val))))))
      \<and> count (walk_value val path st) =
        count st
          + report_count (concat (map (member_lines val path)
              (enumerate 0 (take k (fields_of (strip (vtype val)))))))
          + report_count (concat (map (member_lines val path)
              (enumerate (Suc k) (drop (Suc k) (fields_of (strip (vtype val))))))))"
proof (intro conjI impI)
  assume a: "code (strip (vtype val)) = TYPE_CODE_ARRAY" "array_len (strip (vtype val)) = Some n"
    "k < nat n" "getitem val k = None"
  show "console (walk_value val path st) =
        console st
        @ concat (map (elem_lines val path) [0..<k])
        @ [InaccessibleElement (path @ ''['' @ str_int (int k) @ '']'')]
        @ concat (map (elem_lines val path) [Suc k..<nat n])"
    by (simp only: walk_value_console emitted_array_gap[OF a])
  show "count (walk_value val path st) =
        count st + report_count (concat (map (elem_lines val path) [0..<k]))
          + report_count (concat (map (elem_lines val path) [Suc k..<nat n]))"
    by (simp only: walk_value_count emitted_array_gap[OF a] report_count_diag is_report.simps
          simp_thms add.assoc)
next
  assume a: "code (strip (vtype val)) = TYPE_CODE_STRUCT"
    "k < length (fields_of (strip (vtype val)))"
    "\<not> artificial (fields_of (strip (vtype val)) ! k)" "getitem val k = None"
  show "console (walk_value val path st) =
        console st
        @ concat (map (member_lines val path)
            (filter real_field (enumerate 0 (take k (fields_of (strip (vtype val)))))))
        @ [Inaccessible (path @ ''.'' @ field_name (fields_of (strip (vtype val)) ! k))]
        @ concat (map (member_lines val path)
            (filter real_field
              (enumerate (Suc k) (drop (Suc k) (fields_of (strip (vtype val)))))))"
    by (simp only: walk_value_console emitted_struct_gap[OF a])
  show "count (walk_value val path st) =
        count st
          + report_count (concat (map (member_lines val path)
              (filter real_field (enumerate 0 (take k (fields_of (strip (vtype val))))))))
          + report_count (concat (map (member_lines val path)
              (filter real_field
                (enumerate (Suc k) (drop (Suc k) (fields_of (strip (vtype val))))))))"
    by (simp only: walk_value_count emitted_struct_gap[OF a] report_count_diag is_report.simps
          simp_thms add.assoc)
next
  assume a: "code (strip (vtype val)) = TYPE_CODE_UNION"
    "k < length (fields_of (strip (vtype val)))" "getitem val k = None"
  show "console (walk_value val path st) =
        console st
        @ concat (map (member_lines val path)
            (enumerate 0 (take k (fields_of (strip (vtype val))))))
        @ [Inaccessible (path @ ''.'' @ field_name (fields_of (strip (vtype val)) ! k))]
        @ concat (map (member_lines val path)
            (enumerate (Suc k) (drop (Suc k) (fields_of (strip (vtype val))))))"
    by (simp only: walk_value_console emitted_union_gap[OF a])
  show "count (walk_value val path st) =
        count st
          + report_count (concat (map (member_lines val path)
              (enumerate 0 (take k (fields_of (strip (vtype val)))))))
          + report_count (concat (map (member_lines val path)
              (enumerate (Suc k) (drop (Suc k) (fields_of (strip (vtype val)))))))"
    by (simp only: walk_value_count emitted_union_gap[OF a] report_count_diag is_report.simps
          simp_thms add.assoc)
qed

theorem inaccessible_subvalue_is_local_witness:
  "code (strip (vtype gap_arr_val)) = TYPE_CODE_ARRAY
   \<and> array_len (strip (vtype gap_arr_val)) = Some 3
   \<and> 1 < nat 3 \<and> getitem gap_arr_val 1 = None
   \<and> console (walk_value gap_arr_val ''v'' \<lparr>count = 0, console = []\<rparr>) =
       [Report ''v[0]'' ''char *'' ''0x1000'',
        InaccessibleElement ''v[1]'',
        Report ''v[2]'' ''char *'' ''0x3000'']
   \<and> count (walk_value gap_arr_val ''v'' \<lparr>count = 0, console = []\<rparr>) = 2
   \<and> code (strip (vtype gap_abc_val)) = TYPE_CODE_STRUCT
   \<and> 1 < length (fields_of (strip (vtype gap_abc_val)))
   \<and> \<not> artificial (fields_of (strip (vtype gap_abc_val)) ! 1)
   \<and> getitem gap_abc_val 1 = None
   \<and> console (walk_value gap_abc_val ''s'' \<lparr>count = 0, console = []\<rparr>) =
       [Report ''s.a'' ''char *'' ''0x1000'',
        Inaccessible ''s.b'',
        Report ''s.c'' ''void *'' ''0x4000'']
   \<and> count (walk_value gap_abc_val ''s'' \<lparr>count = 0, console = []\<rparr>) = 2
   \<and> code (strip (vtype gap_pu_val)) = TYPE_CODE_UNION
   \<and> 0 < length (fields_of (strip (vtype gap_pu_val)))
   \<and> getitem gap_pu_val 0 = None
   \<and> console (walk_value gap_pu_val ''u'' \<lparr>count = 0, console = []\<rparr>) =
       [Inaccessible ''u.p'', Report ''u.q'' ''void *'' ''0xbeef0'']
   \<and> count (walk_value gap_pu_val ''u'' \<lparr>count = 0, console = []\<rparr>) = 1"
proof -
  let ?st = "\<lparr>count = 0, console = []\<rparr>"
  have ha: "code (strip (vtype gap_arr_val)) = TYPE_CODE_ARRAY"
    "array_len (strip (vtype gap_arr_val)) = Some 3"
    "1 < nat 3" "getitem gap_arr_val 1 = None"
    by code_simp+
  have hs: "code (strip (vtype gap_abc_val)) = TYPE_CODE_STRUCT"
    "1 < length (fields_of (strip (vtype gap_abc_val)))"
    "\<not> artificial (fields_of (strip (vtype gap_abc_val)) ! 1)"
    "getitem gap_abc_val 1 = None"
    by code_simp+
  have hu: "code (strip (vtype gap_pu_val)) = TYPE_CODE_UNION"
    "0 < length (fields_of (strip (vtype gap_pu_val)))"
    "getitem gap_pu_val 0 = None"
    by code_simp+
  have a: "console (walk_value gap_arr_val ''v'' ?st) =
        console ?st
        @ concat (map (elem_lines gap_arr_val ''v'') [0..<1])
        @ [InaccessibleElement (''v'' @ ''['' @ str_int (int 1) @ '']'')]
        @ concat (map (elem_lines gap_arr_val ''v'') [Suc 1..<nat 3])
      \<and> count (walk_value gap_arr_val ''v'' ?st) =
        count ?st + report_count (concat (map (elem_lines gap_arr_val ''v'') [0..<1]))
          + report_count (concat (map (elem_lines gap_arr_val ''v'') [Suc 1..<nat 3]))"
    using inaccessible_subvalue_is_local[of gap_arr_val 3 1 "''v''" ?st] ha by blast
  have ea: "console ?st
        @ concat (map (elem_lines gap_arr_val ''v'') [0..<1])
        @ [InaccessibleElement (''v'' @ ''['' @ str_int (int 1) @ '']'')]
        @ concat (map (elem_lines gap_arr_val ''v'') [Suc 1..<nat 3]) =
       [Report ''v[0]'' ''char *'' ''0x1000'',
        InaccessibleElement ''v[1]'',
        Report ''v[2]'' ''char *'' ''0x3000'']"
    "count ?st + report_count (concat (map (elem_lines gap_arr_val ''v'') [0..<1]))
          + report_count (concat (map (elem_lines gap_arr_val ''v'') [Suc 1..<nat 3])) = 2"
    by code_simp+
  have s: "console (walk_value gap_abc_val ''s'' ?st) =
        console ?st
        @ concat (map (member_lines gap_abc_val ''s'')
            (filter real_field (enumerate 0 (take 1 (fields_of (strip (vtype gap_abc_val)))))))
        @ [Inaccessible (''s'' @ ''.'' @ field_name (fields_of (strip (vtype gap_abc_val)) ! 1))]
        @ concat (map (member_lines gap_abc_val ''s'')
            (filter real_field
              (enumerate (Suc 1) (drop (Suc 1) (fields_of (strip (vtype gap_abc_val)))))))
      \<and> count (walk_value gap_abc_val ''s'' ?st) =
        count ?st
          + report_count (concat (map (member_lines gap_abc_val ''s'')
              (filter real_field (enumerate 0 (take 1 (fields_of (strip (vtype gap_abc_val))))))))
          + report_count (concat (map (member_lines gap_abc_val ''s'')
              (filter real_field
                (enumerate (Suc 1) (drop (Suc 1) (fields_of (strip (vtype gap_abc_val))))))))"
    using inaccessible_subvalue_is_local[of gap_abc_val 0 1 "''s''" ?st] hs by blast
  have es: "console ?st
        @ concat (map (member_lines gap_abc_val ''s'')
            (filter real_field (enumerate 0 (take 1 (fields_of (strip (vtype gap_abc_val)))))))
        @ [Inaccessible (''s'' @ ''.'' @ field_name (fields_of (strip (vtype gap_abc_val)) ! 1))]
        @ concat (map (member_lines gap_abc_val ''s'')
            (filter real_field
              (enumerate (Suc 1) (drop (Suc 1) (fields_of (strip (vtype gap_abc_val))))))) =
       [Report ''s.a'' ''char *'' ''0x1000'',
        Inaccessible ''s.b'',
        Report ''s.c'' ''void *'' ''0x4000'']"
    "count ?st
          + report_count (concat (map (member_lines gap_abc_val ''s'')
              (filter real_field (enumerate 0 (take 1 (fields_of (strip (vtype gap_abc_val))))))))
          + report_count (concat (map (member_lines gap_abc_val ''s'')
              (filter real_field
                (enumerate (Suc 1) (drop (Suc 1) (fields_of (strip (vtype gap_abc_val)))))))) = 2"
    by code_simp+
  have u: "console (walk_value gap_pu_val ''u'' ?st) =
        console ?st
        @ concat (map (member_lines gap_pu_val ''u'')
            (enumerate 0 (take 0 (fields_of (strip (vtype gap_pu_val))))))
        @ [Inaccessible (''u'' @ ''.'' @ field_name (fields_of (strip (vtype gap_pu_val)) ! 0))]
        @ concat (map (member_lines gap_pu_val ''u'')
            (enumerate (Suc 0) (drop (Suc 0) (fields_of (strip (vtype gap_pu_val))))))
      \<and> count (walk_value gap_pu_val ''u'' ?st) =
        count ?st
          + report_count (concat (map (member_lines gap_pu_val ''u'')
              (enumerate 0 (take 0 (fields_of (strip (vtype gap_pu_val)))))))
          + report_count (concat (map (member_lines gap_pu_val ''u'')
              (enumerate (Suc 0) (drop (Suc 0) (fields_of (strip (vtype gap_pu_val)))))))"
    using inaccessible_subvalue_is_local[of gap_pu_val 0 0 "''u''" ?st] hu by blast
  have eu: "console ?st
        @ concat (map (member_lines gap_pu_val ''u'')
            (enumerate 0 (take 0 (fields_of (strip (vtype gap_pu_val))))))
        @ [Inaccessible (''u'' @ ''.'' @ field_name (fields_of (strip (vtype gap_pu_val)) ! 0))]
        @ concat (map (member_lines gap_pu_val ''u'')
            (enumerate (Suc 0) (drop (Suc 0) (fields_of (strip (vtype gap_pu_val)))))) =
       [Inaccessible ''u.p'', Report ''u.q'' ''void *'' ''0xbeef0'']"
    "count ?st
          + report_count (concat (map (member_lines gap_pu_val ''u'')
              (enumerate 0 (take 0 (fields_of (strip (vtype gap_pu_val)))))))
          + report_count (concat (map (member_lines gap_pu_val ''u'')
              (enumerate (Suc 0) (drop (Suc 0) (fields_of (strip (vtype gap_pu_val))))))) = 1"
    by code_simp+
  have ra: "console (walk_value gap_arr_val ''v'' ?st) =
       [Report ''v[0]'' ''char *'' ''0x1000'',
        InaccessibleElement ''v[1]'',
        Report ''v[2]'' ''char *'' ''0x3000'']"
    "count (walk_value gap_arr_val ''v'' ?st) = 2"
    using a ea by (simp_all only:)
  have rs: "console (walk_value gap_abc_val ''s'' ?st) =
       [Report ''s.a'' ''char *'' ''0x1000'',
        Inaccessible ''s.b'',
        Report ''s.c'' ''void *'' ''0x4000'']"
    "count (walk_value gap_abc_val ''s'' ?st) = 2"
    using s es by (simp_all only:)
  have ru: "console (walk_value gap_pu_val ''u'' ?st) =
       [Inaccessible ''u.p'', Report ''u.q'' ''void *'' ''0xbeef0'']"
    "count (walk_value gap_pu_val ''u'' ?st) = 1"
    using u eu by (simp_all only:)
  show ?thesis
    using ha hs hu ra rs ru by (simp only: simp_thms)
qed

text \<open>
  C6. The lines of a walk come in depth-first order. For an array of known
  length they are the lines of element 0, then of element 1, and so on up to
  the last index; for a struct, the lines of its fields that are not
  artificial, in the order of \<^verbatim>\<open>fields()\<close>; for a union, the lines of its
  members in the order of \<^verbatim>\<open>fields()\<close>. The lines of an element or field are
  its own Report Record when it is a pointer, and the whole walk below it when
  it is an aggregate. For the struct with fields \<^verbatim>\<open>a\<close>, \<^verbatim>\<open>b\<close>, \<^verbatim>\<open>c\<close>, where \<^verbatim>\<open>b\<close> is
  an array of two pointers, the order is \<^verbatim>\<open>a\<close>, \<^verbatim>\<open>b[0]\<close>, \<^verbatim>\<open>b[1]\<close>, \<^verbatim>\<open>c\<close>.
\<close>

theorem reports_in_traversal_order:
  "(code (strip (vtype val)) = TYPE_CODE_ARRAY \<longrightarrow> array_len (strip (vtype val)) = Some n \<longrightarrow>
      emitted val path = concat (map (elem_lines val path) [0..<nat n]))
   \<and> (code (strip (vtype val)) = TYPE_CODE_STRUCT \<longrightarrow>
      emitted val path =
        concat (map (member_lines val path)
          (filter real_field (enumerate 0 (fields_of (strip (vtype val)))))))
   \<and> (code (strip (vtype val)) = TYPE_CODE_UNION \<longrightarrow>
      emitted val path =
        concat (map (member_lines val path) (enumerate 0 (fields_of (strip (vtype val))))))"
  using emitted_array emitted_struct emitted_union by blast

theorem reports_in_traversal_order_witness:
  "code (strip (vtype b_val)) = TYPE_CODE_ARRAY \<and> array_len (strip (vtype b_val)) = Some 2
   \<and> emitted b_val ''s.b'' = concat (map (elem_lines b_val ''s.b'') [0..<nat 2])
   \<and> emitted b_val ''s.b'' =
       [Report ''s.b[0]'' ''char *'' ''0x2000'', Report ''s.b[1]'' ''char *'' ''0x3000'']
   \<and> code (strip (vtype abc_val)) = TYPE_CODE_STRUCT
   \<and> emitted abc_val ''s'' =
       concat (map (member_lines abc_val ''s'')
         (filter real_field (enumerate 0 (fields_of (strip (vtype abc_val))))))
   \<and> emitted abc_val ''s'' =
       [Report ''s.a'' ''char *'' ''0x1000'',
        Report ''s.b[0]'' ''char *'' ''0x2000'',
        Report ''s.b[1]'' ''char *'' ''0x3000'',
        Report ''s.c'' ''void *'' ''0x4000'']
   \<and> code (strip (vtype pu_val)) = TYPE_CODE_UNION
   \<and> emitted pu_val ''u'' =
       concat (map (member_lines pu_val ''u'') (enumerate 0 (fields_of (strip (vtype pu_val)))))
   \<and> emitted pu_val ''u'' =
       [Report ''u.p'' ''char *'' ''0xbeef0'', Report ''u.q'' ''void *'' ''0xbeef0'']"
proof -
  have ha: "code (strip (vtype b_val)) = TYPE_CODE_ARRAY" "array_len (strip (vtype b_val)) = Some 2"
    by code_simp+
  have hs: "code (strip (vtype abc_val)) = TYPE_CODE_STRUCT"
    by code_simp
  have hu: "code (strip (vtype pu_val)) = TYPE_CODE_UNION"
    by code_simp
  have ea: "concat (map (elem_lines b_val ''s.b'') [0..<nat 2]) =
       [Report ''s.b[0]'' ''char *'' ''0x2000'', Report ''s.b[1]'' ''char *'' ''0x3000'']"
    by code_simp
  have es: "concat (map (member_lines abc_val ''s'')
         (filter real_field (enumerate 0 (fields_of (strip (vtype abc_val)))))) =
       [Report ''s.a'' ''char *'' ''0x1000'',
        Report ''s.b[0]'' ''char *'' ''0x2000'',
        Report ''s.b[1]'' ''char *'' ''0x3000'',
        Report ''s.c'' ''void *'' ''0x4000'']"
    by code_simp
  have eu: "concat (map (member_lines pu_val ''u'') (enumerate 0 (fields_of (strip (vtype pu_val))))) =
       [Report ''u.p'' ''char *'' ''0xbeef0'', Report ''u.q'' ''void *'' ''0xbeef0'']"
    by code_simp
  have a: "emitted b_val ''s.b'' = concat (map (elem_lines b_val ''s.b'') [0..<nat 2])"
    using reports_in_traversal_order[of b_val 2 "''s.b''"] ha by blast
  have s: "emitted abc_val ''s'' =
       concat (map (member_lines abc_val ''s'')
         (filter real_field (enumerate 0 (fields_of (strip (vtype abc_val))))))"
    using reports_in_traversal_order[of abc_val 0 "''s''"] hs by blast
  have u: "emitted pu_val ''u'' =
       concat (map (member_lines pu_val ''u'') (enumerate 0 (fields_of (strip (vtype pu_val)))))"
    using reports_in_traversal_order[of pu_val 0 "''u''"] hu by blast
  show ?thesis
    using ha hs hu a s u ea es eu by (simp only: simp_thms)
qed

text \<open>
  C7. Nothing but a failure to obtain the root value should leave the command,
  and every failure inside the walk should end as a line of output. The script
  guards \<^verbatim>\<open>int(v)\<close> in \<^verbatim>\<open>fmt_addr\<close>, but the \<^verbatim>\<open>str(v)\<close> of the handler is outside
  every \<^verbatim>\<open>try\<close>, and so is \<^verbatim>\<open>enum.run\<close> in \<^verbatim>\<open>invoke\<close>. For a struct whose third
  field is a pointer that gdb cannot read (\<^verbatim>\<open>int(v)\<close> raises, \<^verbatim>\<open>str(v)\<close> raises), the
  root value is obtained, the records of the fields before it are written, and
  then the exception of \<^verbatim>\<open>str(v)\<close> leaves the command: it is no \<^verbatim>\<open>GdbError\<close>, the
  records already written stay, and no total follows.
\<close>

theorem unguarded_str_failure_escapes_invoke:
  "demo_argv ''s'' = Inr [''s'']
   \<and> torn_eval (join_space [''s'']) = Inr torn_abc_val
   \<and> getitem torn_abc_val 2 = Some unmapped_ptr_val
   \<and> as_int unmapped_ptr_val = None
   \<and> str_value_raises unmapped_faults unmapped_ptr_val
   \<and> invoke_x unmapped_faults demo_argv torn_eval ''s'' False [] =
       (Some (Escaped StrOfValueRaised),
        [Report ''s.a'' ''char *'' ''0x1000'',
         Report ''s.b[0]'' ''char *'' ''0x2000'',
         Report ''s.b[1]'' ''char *'' ''0x3000''])"
  by code_simp

text \<open>
  C8, as the code has it. \<^verbatim>\<open>fmt_addr\<close> formats \<^verbatim>\<open>int(v)\<close> and falls back to
  \<^verbatim>\<open>str(v)\<close> when \<^verbatim>\<open>int(v)\<close> raises. When \<^verbatim>\<open>int(v)\<close> gives a non-negative integer
  \<open>n\<close>, the address in the Report Record is \<^verbatim>\<open>0x\<close> followed by digits that are
  all among \<^verbatim>\<open>0123456789abcdef\<close> and that read back as exactly \<open>n\<close>. When
  \<^verbatim>\<open>int(v)\<close> raises, the address is the text \<^verbatim>\<open>str(v)\<close>. In both cases it is
  computed from the pointer value alone: the sub-values reachable through it
  play no part.
\<close>

theorem reported_address_is_hex_of_int_value:
  "(as_int pval = Some n \<longrightarrow> 0 \<le> n \<longrightarrow>
      fmt_addr pval = ''0x'' @ hex_digits n
      \<and> list_all is_hex_digit (hex_digits n)
      \<and> hex_value (hex_digits n) = n
      \<and> report_pointer pval ptype path st =
          st\<lparr>console := console st @ [Report path (typename ptype) (''0x'' @ hex_digits n)],
             count := count st + 1\<rparr>
      \<and> render (Report path (typename ptype) (''0x'' @ hex_digits n)) =
          path @ '' : '' @ typename ptype @ '' = 0x'' @ hex_digits n @ nl)
   \<and> (as_int pval = None \<longrightarrow> fmt_addr pval = as_str pval)
   \<and> fmt_addr (Value (vtype pval) (as_int pval) (as_str pval) other_subs) = fmt_addr pval"
  by (simp add: fmt_addr_def format_x_def hex_digits_all_hex hex_value_hex_digits
        report_pointer_emit emit_def report_count_def split: option.split)

theorem reported_address_is_hex_of_int_value_witness:
  "as_int (ptr_val char_ptr 0xdeadbeef) = Some 0xdeadbeef \<and> (0::int) \<le> 0xdeadbeef
   \<and> fmt_addr (ptr_val char_ptr 0xdeadbeef) = ''0xdeadbeef''
   \<and> list_all is_hex_digit ''deadbeef''
   \<and> hex_value ''deadbeef'' = 0xdeadbeef
   \<and> report_pointer (ptr_val char_ptr 0xdeadbeef) char_ptr ''s.name'' \<lparr>count = 0, console = []\<rparr> =
       \<lparr>count = 1, console = [Report ''s.name'' ''char *'' ''0xdeadbeef'']\<rparr>
   \<and> render (Report ''s.name'' ''char *'' ''0xdeadbeef'') = ''s.name : char * = 0xdeadbeef'' @ nl
   \<and> as_int unread_ptr_val = None
   \<and> fmt_addr unread_ptr_val = ''<optimized out>''"
proof -
  let ?p = "ptr_val char_ptr 0xdeadbeef"
  have h: "as_int ?p = Some 0xdeadbeef" "(0::int) \<le> 0xdeadbeef"
    by code_simp+
  have hn: "as_int unread_ptr_val = None"
    by code_simp
  have e: "hex_digits 0xdeadbeef = ''deadbeef''" "typename char_ptr = ''char *''"
    "as_str unread_ptr_val = ''<optimized out>''"
    by code_simp+
  have a: "fmt_addr ?p = ''0x'' @ hex_digits 0xdeadbeef
      \<and> list_all is_hex_digit (hex_digits 0xdeadbeef)
      \<and> hex_value (hex_digits 0xdeadbeef) = 0xdeadbeef
      \<and> report_pointer ?p char_ptr ''s.name'' \<lparr>count = 0, console = []\<rparr> =
          \<lparr>count = 0, console = []\<rparr>\<lparr>console := console \<lparr>count = 0, console = []\<rparr>
                @ [Report ''s.name'' (typename char_ptr) (''0x'' @ hex_digits 0xdeadbeef)],
             count := count \<lparr>count = 0, console = []\<rparr> + 1\<rparr>
      \<and> render (Report ''s.name'' (typename char_ptr) (''0x'' @ hex_digits 0xdeadbeef)) =
          ''s.name'' @ '' : '' @ typename char_ptr @ '' = 0x'' @ hex_digits 0xdeadbeef @ nl"
    using reported_address_is_hex_of_int_value
      [of ?p "0xdeadbeef" char_ptr "''s.name''" "\<lparr>count = 0, console = []\<rparr>"] h
    by blast
  have b: "fmt_addr unread_ptr_val = as_str unread_ptr_val"
    using reported_address_is_hex_of_int_value[of unread_ptr_val] hn by blast
  show ?thesis
    using h hn a b by (simp add: e)
qed

text \<open>
  C8 as stated fails for a pointer whose \<^verbatim>\<open>int(v)\<close> raises: it is reported and
  counted, and the address printed is gdb's placeholder, not \<^verbatim>\<open>0x\<close> and
  hexadecimal digits.
\<close>

theorem unreadable_pointer_address_not_hex:
  "code (strip (vtype unread_ptr_val)) = TYPE_CODE_PTR
   \<and> console (walk_value unread_ptr_val ''p'' \<lparr>count = 0, console = []\<rparr>) =
       [Report ''p'' ''char *'' ''<optimized out>'']
   \<and> count (walk_value unread_ptr_val ''p'' \<lparr>count = 0, console = []\<rparr>) = 1
   \<and> take 2 ''<optimized out>'' \<noteq> ''0x''
   \<and> \<not> list_all is_hex_digit (drop 2 ''<optimized out>'')"
  by code_simp

text \<open>
  C9. \<^verbatim>\<open>run\<close> writes the same lines whatever state it starts from: the lines of
  the walk and the total. Run a second time on the same value and path, it
  appends the same lines again and ends with the same count; the count it
  starts from has no effect on the total, because \<^verbatim>\<open>run\<close> sets it to zero first.
\<close>

theorem run_twice_same_output:
  "console (run val root_name st) =
     console st @ emitted val root_name @ [Total (report_count (emitted val root_name))]
   \<and> console (run val root_name (run val root_name st)) =
     console (run val root_name st)
       @ emitted val root_name @ [Total (report_count (emitted val root_name))]
   \<and> count (run val root_name (run val root_name st)) = count (run val root_name st)
   \<and> count (run val root_name (st\<lparr>count := c\<rparr>)) = count (run val root_name st)
   \<and> console (run val root_name (st\<lparr>count := c\<rparr>)) = console (run val root_name st)"
  by (simp add: run_emit)

text \<open>
  C10. When the stripped type of a value is an array type whose \<^verbatim>\<open>range()\<close>
  raises while its own \<^verbatim>\<open>sizeof\<close> and the \<^verbatim>\<open>sizeof\<close> of its element type are both
  known and positive, \<^verbatim>\<open>array_len\<close> is the integer quotient of the two, and the
  walk goes through every index below it in ascending order: what it writes is
  the lines of the elements one after the other, and the count grows by the
  Report Records among them. No unknown-length line for the path of this array
  is among them.
\<close>

theorem sizeof_fallback_traverses_array:
  "code (strip (vtype val)) = TYPE_CODE_ARRAY \<Longrightarrow>
   range_of (strip (vtype val)) = None \<Longrightarrow>
   sizeof (strip (vtype val)) = Some ts \<Longrightarrow>
   sizeof (target (strip (vtype val))) = Some es \<Longrightarrow>
   0 < ts \<Longrightarrow> 0 < es \<Longrightarrow>
     array_len (strip (vtype val)) = Some (ts div es)
     \<and> console (walk_value val path st) =
         console st @ concat (map (elem_lines val path) [0..<nat (ts div es)])
     \<and> count (walk_value val path st) =
         count st + report_count (concat (map (elem_lines val path) [0..<nat (ts div es)]))
     \<and> UnknownLength path el \<notin> set (concat (map (elem_lines val path) [0..<nat (ts div es)]))"
proof -
  assume a: "code (strip (vtype val)) = TYPE_CODE_ARRAY"
    "range_of (strip (vtype val)) = None"
    "sizeof (strip (vtype val)) = Some ts"
    "sizeof (target (strip (vtype val))) = Some es" "0 < ts" "0 < es"
  have len: "array_len (strip (vtype val)) = Some (ts div es)"
    using a by (simp add: array_len_fallback strip_strip)
  have no_diag:
    "UnknownLength path el \<notin> set (concat (map (elem_lines val path) [0..<nat (ts div es)]))"
    using elem_lines_not_at_path[of "UnknownLength path el" val path "[0..<nat (ts div es)]"]
    by auto
  show ?thesis
    using no_diag by (simp add: len walk_value_array[OF a(1) len] emit_def py_range_def)
qed

theorem sizeof_fallback_traverses_array_witness:
  "code (strip (vtype sized_val)) = TYPE_CODE_ARRAY
   \<and> range_of (strip (vtype sized_val)) = None
   \<and> sizeof (strip (vtype sized_val)) = Some 16
   \<and> sizeof (target (strip (vtype sized_val))) = Some 8
   \<and> (0::int) < 16 \<and> (0::int) < 8
   \<and> array_len (strip (vtype sized_val)) = Some 2
   \<and> console (walk_value sized_val ''v'' \<lparr>count = 0, console = []\<rparr>) =
       [Report ''v[0]'' ''char *'' ''0x1000'', Report ''v[1]'' ''char *'' ''0x2000'']
   \<and> count (walk_value sized_val ''v'' \<lparr>count = 0, console = []\<rparr>) = 2
   \<and> UnknownLength ''v'' ''char *'' \<notin> set (concat (map (elem_lines sized_val ''v'') [0..<2]))"
proof -
  have h: "code (strip (vtype sized_val)) = TYPE_CODE_ARRAY"
    "range_of (strip (vtype sized_val)) = None"
    "sizeof (strip (vtype sized_val)) = Some 16"
    "sizeof (target (strip (vtype sized_val))) = Some 8"
    by code_simp+
  have e: "concat (map (elem_lines sized_val ''v'') [0..<2]) =
      [Report ''v[0]'' ''char *'' ''0x1000'', Report ''v[1]'' ''char *'' ''0x2000'']"
    by code_simp
  have r: "report_count [Report ''v[0]'' ''char *'' ''0x1000'',
      Report ''v[1]'' ''char *'' ''0x2000''] = 2"
    by code_simp
  show ?thesis
    using h
      sizeof_fallback_traverses_array[OF h, of "''v''" "\<lparr>count = 0, console = []\<rparr>" "''char *''"]
    by (simp add: e r)
qed

end
